theory Spec2Isabelle
  imports Main "HOL-Library.Sublist" "HOL-Library.Char_ord" "HOL-Library.List_Lexorder"
begin

section \<open>Overview\<close>

text \<open>
  A model of the deployment service \<^verbatim>\<open>tools/cmd/coach/main.go\<close>: the interceptor
  that authenticates a call, the validation of the requests, and the two operations
  \<^verbatim>\<open>Assemble\<close> and \<^verbatim>\<open>Start\<close> with what they do to the filesystem and to the
  outside world.  The source file holds two versions of the program, one after the
  other; the model follows the later one, which copies the local override files.
  What the program writes to its log is not modelled.
\<close>

section \<open>Errors\<close>

text \<open>
  The handlers of \<^verbatim>\<open>tools/cmd/coach/main.go\<close> build their errors in two ways:
  \<^verbatim>\<open>fmt.Errorf\<close> gives a plain error that carries a message only, and
  \<^verbatim>\<open>status.Error(code, msg)\<close> gives an error that carries a gRPC status code.
  Only the codes that the program or its specification name are listed.
\<close>

datatype code = Unknown | InvalidArgument | NotFound | Unauthenticated

datatype error = Plain string | Status code string

fun code_String :: "code \<Rightarrow> string" where
  "code_String Unknown = ''Unknown''"
| "code_String InvalidArgument = ''InvalidArgument''"
| "code_String NotFound = ''NotFound''"
| "code_String Unauthenticated = ''Unauthenticated''"

text \<open>\<^verbatim>\<open>err.Error()\<close>, as the verb \<^verbatim>\<open>%w\<close> of \<^verbatim>\<open>fmt.Errorf\<close> prints it.\<close>

fun Error :: "error \<Rightarrow> string" where
  "Error (Plain m) = m"
| "Error (Status c m) = ''rpc error: code = '' @ code_String c @ '' desc = '' @ m"

text \<open>\<^verbatim>\<open>fmt.Errorf("<prefix>: %w", err)\<close>: a plain error again.\<close>

definition Errorf_w :: "string \<Rightarrow> error \<Rightarrow> error" where
  "Errorf_w pre e = Plain (pre @ '': '' @ Error e)"

text \<open>The status code an error carries, if it carries one.\<close>

fun error_class :: "error \<Rightarrow> code option" where
  "error_class (Plain m) = None"
| "error_class (Status c m) = Some c"

section \<open>The authentication interceptor\<close>

text \<open>
  \<^verbatim>\<open>metadata.MD\<close> is a \<^verbatim>\<open>map[string][]string\<close>; \<^verbatim>\<open>md.Get\<close> returns the values
  stored under a key, none when the key is absent.  The context of a call carries
  metadata or not (\<^verbatim>\<open>metadata.FromIncomingContext\<close> returns \<^verbatim>\<open>ok = false\<close>).
\<close>

type_synonym MD = "string \<Rightarrow> string list option"

definition md_Get :: "MD \<Rightarrow> string \<Rightarrow> string list" where
  "md_Get md k = (case md k of None \<Rightarrow> [] | Some vs \<Rightarrow> vs)"

definition TrimPrefix :: "string \<Rightarrow> string \<Rightarrow> string" where
  "TrimPrefix s pre = (if prefix pre s then drop (length pre) s else s)"

text \<open>
  \<^verbatim>\<open>authInterceptor(expectedToken)\<close> applied to the metadata of the incoming context
  and to the outcome \<open>handler\<close> that the wrapped handler produces when it is called.
\<close>

definition authInterceptor :: "string \<Rightarrow> MD option \<Rightarrow> error + 'r \<Rightarrow> error + 'r" where
  "authInterceptor expectedToken ctx handler =
     (case ctx of
        None \<Rightarrow> Inl (Status Unauthenticated ''metadata not found'')
      | Some md \<Rightarrow>
          (let authHeader = md_Get md ''authorization'' in
           if length authHeader = 0
           then Inl (Status Unauthenticated ''authorization header required'')
           else (let token = TrimPrefix (authHeader ! 0) ''Bearer '' in
                 if token \<noteq> expectedToken
                 then Inl (Status Unauthenticated ''invalid token'')
                 else handler)))"

section \<open>Requests and their validation\<close>

text \<open>
  Modelled from the spec: the request types \<^verbatim>\<open>AssembleRequest\<close> and
  \<^verbatim>\<open>StartRequest\<close> and the enumeration of the tag strategies are generated from
  \<^verbatim>\<open>squad/v1alpha1/coach.proto\<close>, which is not among the sources.  The
  specification gives an Assemble request a repository name, a ref, an optional
  Dockerfile path, an optional build-context path, an image name and a tag strategy
  among Unspecified, Latest and Sha, and a Start request a service name and a ref.
  The names are those that \<^verbatim>\<open>main.go\<close> uses; \<open>StartRef\<close> is the field
  \<^verbatim>\<open>Ref\<close> of \<^verbatim>\<open>StartRequest\<close>.  The optional fields are pointers in Go and
  options here.  The tag strategy is an open protobuf enumeration: besides the three
  named values a request can carry any other wire value, written \<open>TAG_other n\<close>.
\<close>

datatype AssembleRequest_Tag = TAG_UNSPECIFIED | TAG_LATEST | TAG_SHA | TAG_other int

record AssembleRequest =
  Repo :: string
  Ref :: string
  DockerfileLocation :: "string option"
  ContextLocation :: "string option"
  Image :: string
  Tag :: AssembleRequest_Tag

record StartRequest =
  Service :: string
  StartRef :: string

definition validateAssembleRequest :: "AssembleRequest \<Rightarrow> error option" where
  "validateAssembleRequest req =
     (if Repo req = [] then Some (Plain ''repo name is required'')
      else if Ref req = [] then Some (Plain ''ref is required'')
      else if Image req = [] then Some (Plain ''image name is required'')
      else None)"

definition validateStartRequest :: "StartRequest \<Rightarrow> error option" where
  "validateStartRequest req =
     (if Service req = [] then Some (Plain ''service name is required'')
      else if StartRef req = [] then Some (Plain ''ref is required'')
      else if Service req = ''github.com_baely_infra'' then Some (Plain ''coach cannot deploy coach'')
      else None)"

definition getDockerTag :: "AssembleRequest \<Rightarrow> error + string" where
  "getDockerTag req =
     (case Tag req of
        TAG_LATEST \<Rightarrow> Inr ''latest''
      | TAG_SHA \<Rightarrow> Inr (Ref req)
      | _ \<Rightarrow> Inl (Plain ''invalid docker tag''))"

definition getStringOrDefault :: "string option \<Rightarrow> string \<Rightarrow> string" where
  "getStringOrDefault ptr defaultValue = (case ptr of Some s \<Rightarrow> s | None \<Rightarrow> defaultValue)"

section \<open>Paths\<close>

text \<open>
  An absolute, cleaned path is the list of its components, the root being \<open>[]\<close>.
  \<open>Join d s\<close> is \<^verbatim>\<open>filepath.Join(d, s)\<close> for such a \<open>d\<close>: the components of
  \<open>s\<close> are applied to \<open>d\<close> as \<^verbatim>\<open>filepath.Clean\<close> does on a rooted path (an
  empty component and \<^verbatim>\<open>.\<close> are dropped, \<^verbatim>\<open>..\<close> removes the last component and
  stays at the root).
\<close>

type_synonym path = "string list"

fun split_on :: "char \<Rightarrow> string \<Rightarrow> string list" where
  "split_on sep [] = [[]]"
| "split_on sep (c # cs) =
     (if c = sep then [] # split_on sep cs
      else (case split_on sep cs of [] \<Rightarrow> [[c]] | w # ws \<Rightarrow> (c # w) # ws))"

definition join_step :: "path \<Rightarrow> string \<Rightarrow> path" where
  "join_step d c = (if c = [] \<or> c = ''.'' then d else if c = ''..'' then butlast d else d @ [c])"

definition Join :: "path \<Rightarrow> string \<Rightarrow> path" where
  "Join d s = foldl join_step d (split_on CHR ''/'' s)"

definition path_str :: "path \<Rightarrow> string" where
  "path_str p = (if p = [] then ''/'' else concat (map (\<lambda>c. ''/'' @ c) p))"

text \<open>
  \<^verbatim>\<open>path.Join\<close> of package \<^verbatim>\<open>path\<close> on strings, for a first element that is a
  plain name (the program calls it with \<^verbatim>\<open>"docker"\<close>), so that the joined path is
  not rooted: \<^verbatim>\<open>..\<close> removes the last component if there is one that is not
  \<^verbatim>\<open>..\<close> itself and is kept otherwise, and the empty result is \<^verbatim>\<open>.\<close>.
\<close>

definition clean_step :: "string list \<Rightarrow> string \<Rightarrow> string list" where
  "clean_step out c =
     (if c = [] \<or> c = ''.'' then out
      else if c = ''..''
           then (if out = [] \<or> last out = ''..'' then out @ [''..''] else butlast out)
           else out @ [c])"

fun join_with :: "string \<Rightarrow> string list \<Rightarrow> string" where
  "join_with sep [] = []"
| "join_with sep [w] = w"
| "join_with sep (w # ws) = w @ sep @ join_with sep ws"

definition path_Join :: "string \<Rightarrow> string \<Rightarrow> string" where
  "path_Join a b =
     (let out = foldl clean_step [] (split_on CHR ''/'' (a @ ''/'' @ b))
      in if out = [] then ''.'' else join_with ''/'' out)"

section \<open>The filesystem\<close>

text \<open>
  The filesystem maps a path to what is there: a directory or a regular file with its
  content.  The root is always a directory.  Permissions, symbolic links and failures
  of the operating system that do not follow from the tree itself (a full disk, a
  denied access) are outside the model: an operation fails exactly when the shape of
  the tree makes it fail.
\<close>

datatype node = Dir | File string

type_synonym filesys = "path \<Rightarrow> node option"

datatype errno = EEXIST | ENOENT | ENOTDIR | EISDIR

fun errno_Error :: "errno \<Rightarrow> string" where
  "errno_Error EEXIST = ''file exists''"
| "errno_Error ENOENT = ''no such file or directory''"
| "errno_Error ENOTDIR = ''not a directory''"
| "errno_Error EISDIR = ''is a directory''"

definition PathError :: "string \<Rightarrow> path \<Rightarrow> errno \<Rightarrow> error" where
  "PathError opn p e = Plain (opn @ '' '' @ path_str p @ '': '' @ errno_Error e)"

definition stat :: "filesys \<Rightarrow> path \<Rightarrow> node option" where
  "stat fs p = (if p = [] then Some Dir else fs p)"

text \<open>
  \<^verbatim>\<open>os.Stat\<close> with its error: the path is resolved from the root, so that a
  missing component gives \<^verbatim>\<open>ENOENT\<close> (the error that \<^verbatim>\<open>os.IsNotExist\<close>
  recognizes) and a regular file in the place of a directory gives \<^verbatim>\<open>ENOTDIR\<close>.
\<close>

function os_Stat :: "filesys \<Rightarrow> path \<Rightarrow> errno + node" where
  "os_Stat fs p =
     (if p = [] then Inr Dir
      else (case os_Stat fs (butlast p) of
              Inl e \<Rightarrow> Inl e
            | Inr (File c) \<Rightarrow> Inl ENOTDIR
            | Inr Dir \<Rightarrow> (case fs p of None \<Rightarrow> Inl ENOENT | Some n \<Rightarrow> Inr n)))"
  by pat_completeness auto
termination
  by (relation "measure (\<lambda>(fs, p). length p)") auto

declare os_Stat.simps [simp del]

definition Mkdir :: "filesys \<Rightarrow> path \<Rightarrow> errno + filesys" where
  "Mkdir fs p =
     (if p = [] then Inl EEXIST
      else (case stat fs (butlast p) of
              None \<Rightarrow> Inl ENOENT
            | Some (File c) \<Rightarrow> Inl ENOTDIR
            | Some Dir \<Rightarrow> (if fs p = None then Inr (fs(p \<mapsto> Dir)) else Inl EEXIST)))"

text \<open>
  \<^verbatim>\<open>os.MkdirAll\<close>: nothing to do for a directory, an error for a file, and otherwise
  the parent first and then the directory itself.
\<close>

function MkdirAll :: "filesys \<Rightarrow> path \<Rightarrow> error + filesys" where
  "MkdirAll fs p =
     (case stat fs p of
        Some Dir \<Rightarrow> Inr fs
      | Some (File c) \<Rightarrow> Inl (PathError ''mkdir'' p ENOTDIR)
      | None \<Rightarrow> (case MkdirAll fs (butlast p) of
                   Inl e \<Rightarrow> Inl e
                 | Inr fs' \<Rightarrow> (case Mkdir fs' p of
                               Inl e \<Rightarrow> Inl (PathError ''mkdir'' p e)
                             | Inr fs'' \<Rightarrow> Inr fs'')))"
  by pat_completeness auto
termination
  by (relation "measure (\<lambda>(fs, p). length p)") (auto simp: stat_def split: if_splits)

declare MkdirAll.simps [simp del]

text \<open>\<^verbatim>\<open>os.WriteFile\<close>: creates the file or replaces its content.\<close>

definition WriteFile :: "filesys \<Rightarrow> path \<Rightarrow> string \<Rightarrow> error + filesys" where
  "WriteFile fs p data =
     (if p = [] then Inl (PathError ''open'' p EISDIR)
      else (case stat fs (butlast p) of
              None \<Rightarrow> Inl (PathError ''open'' p ENOENT)
            | Some (File c) \<Rightarrow> Inl (PathError ''open'' p ENOTDIR)
            | Some Dir \<Rightarrow> (case fs p of
                            Some Dir \<Rightarrow> Inl (PathError ''open'' p EISDIR)
                          | _ \<Rightarrow> Inr (fs(p \<mapsto> File data)))))"

text \<open>\<^verbatim>\<open>os.RemoveAll\<close>: the path and everything below it.\<close>

definition RemoveAll :: "filesys \<Rightarrow> path \<Rightarrow> filesys" where
  "RemoveAll fs p = (\<lambda>q. if prefix p q then None else fs q)"

text \<open>
  In a filesystem that is a tree, whatever exists lies in a directory that exists.
\<close>

definition wf_fs :: "filesys \<Rightarrow> bool" where
  "wf_fs fs = (\<forall>p. fs p \<noteq> None \<longrightarrow> p \<noteq> [] \<and> stat fs (butlast p) = Some Dir)"

text \<open>
  \<^verbatim>\<open>os.MkdirTemp("", pattern)\<close> in the temporary directory \<open>dir\<close>.  A pattern with
  a path separator is refused; the random string replaces the last \<^verbatim>\<open>*\<close> of the
  pattern or is appended.  \<open>rs\<close> are the random strings drawn in turn: a name that
  exists already is tried again with the next one (the library gives up after 10000
  tries, the model when \<open>rs\<close> is used up).  When the directory cannot be made
  because \<open>dir\<close> itself does not exist, the error is that of \<^verbatim>\<open>os.Stat\<close> on
  \<open>dir\<close>.
\<close>

definition prefixAndSuffix :: "string \<Rightarrow> (string \<times> string) option" where
  "prefixAndSuffix pattern =
     (if CHR ''/'' \<in> set pattern then None
      else if CHR ''*'' \<in> set pattern
           then Some (rev (tl (dropWhile (\<lambda>c. c \<noteq> CHR ''*'') (rev pattern))),
                      rev (takeWhile (\<lambda>c. c \<noteq> CHR ''*'') (rev pattern)))
           else Some (pattern, []))"

fun MkdirTemp_loop :: "filesys \<Rightarrow> path \<Rightarrow> string \<Rightarrow> string \<Rightarrow> string list \<Rightarrow> error + (path \<times> filesys)" where
  "MkdirTemp_loop fs dir pre suf [] =
     Inl (Plain (''mkdirtemp '' @ path_str (dir @ [pre @ ''*'' @ suf]) @ '': file already exists''))"
| "MkdirTemp_loop fs dir pre suf (r # rs) =
     (let name = dir @ [pre @ r @ suf] in
      case Mkdir fs name of
        Inr fs' \<Rightarrow> Inr (name, fs')
      | Inl e \<Rightarrow> (if e = EEXIST then MkdirTemp_loop fs dir pre suf rs
                  else if e = ENOENT \<and> os_Stat fs dir = Inl ENOENT
                       then Inl (PathError ''stat'' dir ENOENT)
                       else Inl (PathError ''mkdir'' name e)))"

definition MkdirTemp :: "filesys \<Rightarrow> path \<Rightarrow> string list \<Rightarrow> string \<Rightarrow> error + (path \<times> filesys)" where
  "MkdirTemp fs dir rs pattern =
     (case prefixAndSuffix pattern of
        None \<Rightarrow> Inl (Plain (''mkdirtemp '' @ pattern @ '': pattern contains path separator''))
      | Some (pre, suf) \<Rightarrow> MkdirTemp_loop fs dir pre suf rs)"

section \<open>The local override tree and its traversal\<close>

text \<open>
  What the host holds at \<^verbatim>\<open>/app/services/<name>\<close> is a tree: a regular file with
  its content, or a directory with its named entries.  The program only reads it.
  In a tree of a real filesystem the names of a directory are distinct, and a name is
  not empty, not \<^verbatim>\<open>.\<close> or \<^verbatim>\<open>..\<close>, and has no separator: \<open>wf_tree\<close>.
\<close>

datatype tree = F string | D "(string \<times> tree) list"

definition valid_name :: "string \<Rightarrow> bool" where
  "valid_name n = (n \<noteq> [] \<and> n \<noteq> ''.'' \<and> n \<noteq> ''..'' \<and> CHR ''/'' \<notin> set n)"

fun wf_tree :: "tree \<Rightarrow> bool" where
  "wf_tree (F c) = True"
| "wf_tree (D cs) = (distinct (map fst cs) \<and> list_all (\<lambda>(n, t). valid_name n \<and> wf_tree t) cs)"

text \<open>The content of the regular file at a relative path of the tree, if there is one.\<close>

function tree_file :: "tree \<Rightarrow> path \<Rightarrow> string option" where
  "tree_file (F c) p = (if p = [] then Some c else None)"
| "tree_file (D cs) [] = None"
| "tree_file (D cs) (n # q) = (case map_of cs n of None \<Rightarrow> None | Some t \<Rightarrow> tree_file t q)"
  by pat_completeness auto
termination
proof (relation "measure (\<lambda>(t, p). size t)")
  fix cs :: "(string \<times> tree) list" and n :: string and q :: path and t :: tree
  assume "map_of cs n = Some t"
  then have "(n, t) \<in> set cs"
    by (rule map_of_SomeD)
  then have "size t < size (D cs)"
    by (induction cs) auto
  then show "((t, q), (D cs, n # q)) \<in> measure (\<lambda>(t, p). size t)"
    by simp
qed simp

text \<open>
  \<^verbatim>\<open>filepath.Walk\<close> calls its function on the root first and then on the entries of
  a directory in lexical order of their names, each directory before its entries.
  \<open>visits t\<close> lists these calls: the path relative to the root (what
  \<^verbatim>\<open>filepath.Rel(sourcePath, path)\<close> computes) and what is found there.
\<close>

datatype visit = VDir | VFile string

function visits :: "tree \<Rightarrow> (path \<times> visit) list" where
  "visits (F c) = [([], VFile c)]"
| "visits (D cs) =
     ([], VDir) # concat (map (\<lambda>(n, t). map (\<lambda>(q, v). (n # q, v)) (visits t)) (sort_key fst cs))"
  by pat_completeness auto
termination
proof (relation "measure size")
  fix cs :: "(string \<times> tree) list" and x :: "string \<times> tree" and n :: string and t :: tree
  assume "x \<in> set (sort_key fst cs)" and "(n, t) = x"
  then have "(n, t) \<in> set cs"
    by simp
  then have "size t < size (D cs)"
    by (induction cs) auto
  then show "(t, D cs) \<in> measure size"
    by simp
qed simp

text \<open>The walk stops at the first error that the function returns, and returns it.\<close>

fun Walk :: "(filesys \<Rightarrow> path \<times> visit \<Rightarrow> error + filesys) \<Rightarrow> filesys \<Rightarrow> (path \<times> visit) list \<Rightarrow> error option \<times> filesys" where
  "Walk fn fs [] = (None, fs)"
| "Walk fn fs (v # vs) = (case fn fs v of Inl e \<Rightarrow> (Some e, fs) | Inr fs' \<Rightarrow> Walk fn fs' vs)"

text \<open>
  The function that \<^verbatim>\<open>copyMountedServiceFiles\<close> passes to the walk: a directory is
  created at the destination, a file is read and written there.
\<close>

definition copy_visit :: "path \<Rightarrow> filesys \<Rightarrow> path \<times> visit \<Rightarrow> error + filesys" where
  "copy_visit destPath fs pv =
     (case pv of (relPath, v) \<Rightarrow>
        (let destFile = destPath @ relPath in
         case v of
           VDir \<Rightarrow> MkdirAll fs destFile
         | VFile data \<Rightarrow> WriteFile fs destFile data))"

text \<open>
  \<open>src\<close> is what the host holds at \<^verbatim>\<open>sourcePath\<close>, \<open>None\<close> when nothing is there
  (\<^verbatim>\<open>os.IsNotExist\<close>).
\<close>

definition copyMountedServiceFiles :: "tree option \<Rightarrow> filesys \<Rightarrow> path \<Rightarrow> error option \<times> filesys" where
  "copyMountedServiceFiles src fs destPath =
     (case src of
        None \<Rightarrow> (None, fs)
      | Some t \<Rightarrow> Walk (copy_visit destPath) fs (visits t))"

section \<open>The outside world\<close>

text \<open>
  A call acts on the filesystem and leaves a trace: the temporary directories it
  creates with \<^verbatim>\<open>os.MkdirTemp\<close> and removes with \<^verbatim>\<open>os.RemoveAll\<close>, the
  requests it sends and the processes it starts, in the order of the calls.  A process
  is recorded with its working directory (\<open>None\<close> when \<^verbatim>\<open>cmd.Dir\<close> is not set), its
  command line, and the filesystem it finds when it starts.
\<close>

datatype event =
    Created path
  | Removed path
  | GetContents string string
  | HttpGet string
  | Exec "path option" "string list" filesys

record world =
  files :: filesys
  trace :: "event list"

text \<open>
  What the program cannot decide is a parameter: the temporary directory and the
  random strings of \<^verbatim>\<open>os.MkdirTemp\<close>; the answer of the hosting service to
  \<^verbatim>\<open>Repositories.GetContents\<close> for a path and a ref, an error or the entries of
  the directory (none when the path is not a directory); the answer to an HTTP GET, an
  error or a status code with the body or an error of reading it; what the host holds
  at a path under \<^verbatim>\<open>/app/services\<close>; and the outcome of a process, \<open>None\<close> for exit
  status 0.  A process changes nothing in the modelled filesystem, except that a
  successful \<^verbatim>\<open>git clone\<close> puts the tree \<open>cloned\<close> at its destination.
\<close>

datatype http_result = HttpFail error | HttpResponse nat "error + string"

record entry =
  Name :: string
  DownloadURL :: string

record env =
  tmp :: path
  rands :: "string list"
  contents :: "string \<Rightarrow> string \<Rightarrow> error + entry list"
  http :: "string \<Rightarrow> http_result"
  mounted :: "string \<Rightarrow> tree option"
  proc :: "path option \<Rightarrow> string list \<Rightarrow> error option"
  cloned :: filesys

definition os_MkdirTemp :: "env \<Rightarrow> world \<Rightarrow> string \<Rightarrow> error + (path \<times> world)" where
  "os_MkdirTemp env w pattern =
     (case MkdirTemp (files w) (tmp env) (rands env) pattern of
        Inl e \<Rightarrow> Inl e
      | Inr (name, fs') \<Rightarrow> Inr (name, w\<lparr>files := fs', trace := trace w @ [Created name]\<rparr>))"

definition os_RemoveAll :: "world \<Rightarrow> path \<Rightarrow> world" where
  "os_RemoveAll w p = w\<lparr>files := RemoveAll (files w) p, trace := trace w @ [Removed p]\<rparr>"

text \<open>\<^verbatim>\<open>cmd.Run()\<close> of a command with the working directory \<open>dir\<close>.\<close>

definition cmd_Run :: "env \<Rightarrow> world \<Rightarrow> path option \<Rightarrow> string list \<Rightarrow> error option \<times> world" where
  "cmd_Run env w dir argv = (proc env dir argv, w\<lparr>trace := trace w @ [Exec dir argv (files w)]\<rparr>)"

definition graft :: "filesys \<Rightarrow> path \<Rightarrow> filesys \<Rightarrow> filesys" where
  "graft fs d t =
     (\<lambda>q. if prefix d q then (if q = d then Some Dir else t (drop (length d) q)) else fs q)"

section \<open>Assemble\<close>

definition cloneRepo :: "env \<Rightarrow> world \<Rightarrow> string \<Rightarrow> path \<Rightarrow> error option \<times> world" where
  "cloneRepo env w repoURL destDir =
     (case cmd_Run env w None [''git'', ''clone'', repoURL, path_str destDir] of
        (Some e, w') \<Rightarrow> (Some e, w')
      | (None, w') \<Rightarrow> (None, w'\<lparr>files := graft (files w') destDir (cloned env)\<rparr>))"

definition checkoutRef :: "env \<Rightarrow> world \<Rightarrow> path \<Rightarrow> string \<Rightarrow> error option \<times> world" where
  "checkoutRef env w repoDir ref = cmd_Run env w (Some repoDir) [''git'', ''checkout'', ref]"

definition buildDockerImage :: "env \<Rightarrow> world \<Rightarrow> path \<Rightarrow> string \<Rightarrow> string \<Rightarrow> string \<Rightarrow> error option \<times> world" where
  "buildDockerImage env w repoDir imageName dockerfile buildContext =
     cmd_Run env w (Some repoDir)
       [''docker'', ''build'', ''--tag'', imageName, ''--push'', ''--platform'', ''linux/amd64'',
        ''--file'', dockerfile, buildContext]"

text \<open>
  The part of \<^verbatim>\<open>Assemble\<close> that runs between the \<^verbatim>\<open>defer\<close> of the cleanup and
  the return; the response carries nothing.
\<close>

definition Assemble_body :: "env \<Rightarrow> world \<Rightarrow> AssembleRequest \<Rightarrow> string \<Rightarrow> path \<Rightarrow> (error + unit) \<times> world" where
  "Assemble_body env w req repo tempDir =
     (let repoDir = Join tempDir (Repo req) in
      case cloneRepo env w repo repoDir of
        (Some e, w1) \<Rightarrow> (Inl (Errorf_w ''failed to clone repository'' e), w1)
      | (None, w1) \<Rightarrow>
          (case checkoutRef env w1 repoDir (Ref req) of
             (Some e, w2) \<Rightarrow> (Inl (Errorf_w (''failed to checkout ref '' @ Ref req) e), w2)
           | (None, w2) \<Rightarrow>
               (case getDockerTag req of
                  Inl e \<Rightarrow> (Inl e, w2)
                | Inr dockerTag \<Rightarrow>
                    (let dockerImage = ''registry.baileys.dev/'' @ Image req @ '':'' @ dockerTag;
                         dockerfile = getStringOrDefault (DockerfileLocation req) ''Dockerfile'';
                         dockerContext = getStringOrDefault (ContextLocation req) ''.''
                     in case buildDockerImage env w2 repoDir dockerImage dockerfile dockerContext of
                          (Some e, w3) \<Rightarrow> (Inl (Errorf_w ''failed to build docker image'' e), w3)
                        | (None, w3) \<Rightarrow> (Inr (), w3)))))"

definition Assemble :: "env \<Rightarrow> world \<Rightarrow> AssembleRequest \<Rightarrow> (error + unit) \<times> world" where
  "Assemble env w req =
     (case validateAssembleRequest req of
        Some e \<Rightarrow> (Inl e, w)
      | None \<Rightarrow>
          (let repo = ''https://github.com/baely/'' @ Repo req in
           case os_MkdirTemp env w (''coach-assemble-'' @ Repo req @ ''-'') of
             Inl e \<Rightarrow> (Inl (Errorf_w ''failed to create temp directory'' e), w)
           | Inr (tempDir, w1) \<Rightarrow>
               (case Assemble_body env w1 req repo tempDir of
                  (r, w2) \<Rightarrow> (r, os_RemoveAll w2 tempDir))))"

section \<open>Start\<close>

definition runDockerCompose :: "env \<Rightarrow> world \<Rightarrow> path \<Rightarrow> string list \<Rightarrow> error option \<times> world" where
  "runDockerCompose env w workDir args =
     cmd_Run env w (Some workDir) (''docker'' # [''compose'', ''-f'', ''deploy.yaml''] @ args)"

definition validateDeployFile :: "filesys \<Rightarrow> path \<Rightarrow> error option" where
  "validateDeployFile fs workDir =
     (let deployYamlPath = Join workDir ''deploy.yaml'' in
      if os_Stat fs deployYamlPath = Inl ENOENT
      then Some (Plain ''deploy.yaml not found in service directory'')
      else None)"

text \<open>A number in decimal, as the verb \<^verbatim>\<open>%d\<close> prints it.\<close>

function decimal :: "nat \<Rightarrow> string" where
  "decimal n = (if n < 10 then [''0123456789'' ! n] else decimal (n div 10) @ [''0123456789'' ! (n mod 10)])"
  by pat_completeness auto
termination
  by (relation "measure id") auto

declare decimal.simps [simp del]

definition downloadFileToPath :: "env \<Rightarrow> world \<Rightarrow> string \<Rightarrow> path \<Rightarrow> error option \<times> world" where
  "downloadFileToPath env w url filepath =
     (let w1 = w\<lparr>trace := trace w @ [HttpGet url]\<rparr> in
      case http env url of
        HttpFail e \<Rightarrow> (Some (Errorf_w ''failed to download'' e), w1)
      | HttpResponse statusCode body \<Rightarrow>
          (if statusCode \<noteq> 200 then (Some (Plain (''HTTP '' @ decimal statusCode)), w1)
           else (case body of
                   Inl e \<Rightarrow> (Some (Errorf_w ''failed to read response'' e), w1)
                 | Inr b \<Rightarrow>
                     (case WriteFile (files w1) filepath b of
                        Inl e \<Rightarrow> (Some e, w1)
                      | Inr fs' \<Rightarrow> (None, w1\<lparr>files := fs'\<rparr>)))))"

text \<open>
  The loop of \<^verbatim>\<open>downloadServiceConfig\<close> over the entries of the directory, with
  the counter \<^verbatim>\<open>downloadedCount\<close>: an entry without a download URL is skipped, a
  download that fails is skipped as well.
\<close>

fun download_loop :: "env \<Rightarrow> path \<Rightarrow> entry list \<Rightarrow> world \<times> nat \<Rightarrow> world \<times> nat" where
  "download_loop env serviceDir [] (w, downloadedCount) = (w, downloadedCount)"
| "download_loop env serviceDir (content # rest) (w, downloadedCount) =
     (let rawURL = DownloadURL content in
      if rawURL = [] then download_loop env serviceDir rest (w, downloadedCount)
      else (let filename = Join serviceDir (Name content) in
            case downloadFileToPath env w rawURL filename of
              (Some e, w1) \<Rightarrow> download_loop env serviceDir rest (w1, downloadedCount)
            | (None, w1) \<Rightarrow> download_loop env serviceDir rest (w1, downloadedCount + 1)))"

text \<open>
  \<^verbatim>\<open>downloadServiceConfig\<close> up to the end of the download loop: the listing, the
  temporary directory, the service directory in it and the downloads.  It yields the
  service directory and the value of \<^verbatim>\<open>downloadedCount\<close>, which the program logs
  at this point.
\<close>

definition downloadServiceConfig_fetch :: "env \<Rightarrow> world \<Rightarrow> string \<Rightarrow> string \<Rightarrow> (error + path \<times> nat) \<times> world" where
  "downloadServiceConfig_fetch env w serviceName ref =
     (let servicePath = path_Join ''docker'' serviceName;
          w0 = w\<lparr>trace := trace w @ [GetContents servicePath ref]\<rparr> in
      case contents env servicePath ref of
        Inl e \<Rightarrow> (Inl (Errorf_w ''failed to get service directory contents'' e), w0)
      | Inr dirContent \<Rightarrow>
          (if length dirContent = 0
           then (Inl (Plain (''no files found in service directory '' @ servicePath)), w0)
           else (case os_MkdirTemp env w0 (''coach-service-'' @ serviceName @ ''-'') of
                   Inl e \<Rightarrow> (Inl (Errorf_w ''failed to create temp directory'' e), w0)
                 | Inr (tempDir, w1) \<Rightarrow>
                     (let serviceDir = Join tempDir serviceName in
                      case MkdirAll (files w1) serviceDir of
                        Inl e \<Rightarrow> (Inl (Errorf_w ''failed to create service subdirectory'' e), w1)
                      | Inr fs2 \<Rightarrow>
                          (case download_loop env serviceDir dirContent (w1\<lparr>files := fs2\<rparr>, 0) of
                             (w3, downloadedCount) \<Rightarrow> (Inr (serviceDir, downloadedCount), w3))))))"

text \<open>
  The whole of \<^verbatim>\<open>downloadServiceConfig\<close>: after the downloads the local override
  tree is copied over the service directory; an error of the copy is logged and the
  service directory is returned all the same.
\<close>

definition downloadServiceConfig :: "env \<Rightarrow> world \<Rightarrow> string \<Rightarrow> string \<Rightarrow> (error + path) \<times> world" where
  "downloadServiceConfig env w serviceName ref =
     (case downloadServiceConfig_fetch env w serviceName ref of
        (Inl e, w3) \<Rightarrow> (Inl e, w3)
      | (Inr (serviceDir, downloadedCount), w3) \<Rightarrow>
          (let mountedServicePath = ''/app/services/'' @ serviceName in
           case copyMountedServiceFiles (mounted env mountedServicePath) (files w3) serviceDir of
             (err, fs4) \<Rightarrow> (Inr serviceDir, w3\<lparr>files := fs4\<rparr>)))"

text \<open>
  The part of \<^verbatim>\<open>Start\<close> that runs between the \<^verbatim>\<open>defer\<close> of the cleanup and the
  return.
\<close>

definition Start_body :: "env \<Rightarrow> world \<Rightarrow> path \<Rightarrow> (error + unit) \<times> world" where
  "Start_body env w workDir =
     (case validateDeployFile (files w) workDir of
        Some e \<Rightarrow> (Inl e, w)
      | None \<Rightarrow>
          (case runDockerCompose env w workDir [''pull''] of
             (Some e, w1) \<Rightarrow> (Inl (Errorf_w ''failed to pull images'' e), w1)
           | (None, w1) \<Rightarrow>
               (case runDockerCompose env w1 workDir [''up'', ''-d''] of
                  (Some e, w2) \<Rightarrow> (Inl (Errorf_w ''failed to start service'' e), w2)
                | (None, w2) \<Rightarrow> (Inr (), w2))))"

definition Start :: "env \<Rightarrow> world \<Rightarrow> StartRequest \<Rightarrow> (error + unit) \<times> world" where
  "Start env w req =
     (case validateStartRequest req of
        Some e \<Rightarrow> (Inl e, w)
      | None \<Rightarrow>
          (case downloadServiceConfig env w (Service req) (StartRef req) of
             (Inl e, w1) \<Rightarrow> (Inl (Errorf_w ''failed to download service config'' e), w1)
           | (Inr workDir, w1) \<Rightarrow>
               (case Start_body env w1 workDir of
                  (r, w2) \<Rightarrow> (r, os_RemoveAll w2 workDir))))"

section \<open>Reading a trace\<close>

text \<open>
  The processes started (working directory and command line), the URLs fetched, the
  directory listings requested and the temporary directories created, each in order;
  and what every process finds at a given path.
\<close>

fun execs :: "event list \<Rightarrow> (path option \<times> string list) list" where
  "execs [] = []"
| "execs (Exec d a s # tr) = (d, a) # execs tr"
| "execs (e # tr) = execs tr"

fun http_gets :: "event list \<Rightarrow> string list" where
  "http_gets [] = []"
| "http_gets (HttpGet u # tr) = u # http_gets tr"
| "http_gets (e # tr) = http_gets tr"

fun listings :: "event list \<Rightarrow> (string \<times> string) list" where
  "listings [] = []"
| "listings (GetContents p r # tr) = (p, r) # listings tr"
| "listings (e # tr) = listings tr"

fun created :: "event list \<Rightarrow> path list" where
  "created [] = []"
| "created (Created p # tr) = p # created tr"
| "created (e # tr) = created tr"

fun observed :: "event list \<Rightarrow> path \<Rightarrow> (string list \<times> node option) list" where
  "observed [] p = []"
| "observed (Exec d a s # tr) p = (a, s p) # observed tr p"
| "observed (e # tr) p = observed tr p"

text \<open>The events that a call adds to the trace \<open>tr\<close> it starts from.\<close>

definition added :: "event list \<Rightarrow> event list \<Rightarrow> event list" where
  "added tr tr' = drop (length tr) tr'"

text \<open>
  The number of files that the first part of \<^verbatim>\<open>downloadServiceConfig\<close> has
  downloaded: the value of \<^verbatim>\<open>downloadedCount\<close> after the loop, and none when the
  function returns an error before the loop.
\<close>

definition downloaded_files :: "error + path \<times> nat \<Rightarrow> nat" where
  "downloaded_files r = (case r of Inl e \<Rightarrow> 0 | Inr (serviceDir, downloadedCount) \<Rightarrow> downloadedCount)"

section \<open>Example inputs\<close>

text \<open>
  A host whose temporary directory is \<^verbatim>\<open>/tmp\<close>, a control repository that holds
  the directory \<^verbatim>\<open>docker/blog\<close> at the ref \<^verbatim>\<open>main\<close> with the given listing and
  nothing else, two files that can be downloaded, the given local override at
  \<^verbatim>\<open>/app/services/blog\<close>, and processes that all succeed.
\<close>

definition ex_env :: "entry list \<Rightarrow> tree option \<Rightarrow> env" where
  "ex_env listing local =
     \<lparr>tmp = [''tmp''], rands = [''1''],
      contents = (\<lambda>p r. if p = ''docker/blog'' \<and> r = ''main'' then Inr listing
                         else Inl (Plain ''404 Not Found'')),
      http = (\<lambda>u. if u = ''https://raw/deploy.yaml'' then HttpResponse 200 (Inr ''remote descriptor'')
                   else if u = ''https://raw/a'' then HttpResponse 200 (Inr ''remote a'')
                   else HttpResponse 404 (Inr [])),
      mounted = (\<lambda>p. if p = ''/app/services/blog'' then local else None),
      proc = (\<lambda>d a. None),
      cloned = [[''Dockerfile''] \<mapsto> File ''FROM scratch'']\<rparr>"

definition ex_world :: world where
  "ex_world = \<lparr>files = [[''tmp''] \<mapsto> Dir], trace = []\<rparr>"

definition ex_descriptor :: entry where
  "ex_descriptor = \<lparr>Name = ''deploy.yaml'', DownloadURL = ''https://raw/deploy.yaml''\<rparr>"

definition ex_start :: StartRequest where
  "ex_start = \<lparr>Service = ''blog'', StartRef = ''main''\<rparr>"

definition ex_assemble :: "AssembleRequest_Tag \<Rightarrow> AssembleRequest" where
  "ex_assemble t =
     \<lparr>Repo = ''blog'', Ref = ''main'', DockerfileLocation = None, ContextLocation = None,
      Image = ''blog'', Tag = t\<rparr>"

section \<open>Facts about the filesystem operations\<close>

text \<open>
  What exists is left alone by \<^verbatim>\<open>os.MkdirAll\<close>, which touches nothing but the path
  and its ancestors; below a path that does not exist a tree holds nothing; a file
  that is written holds what was written, and a directory is never replaced by a
  file.
\<close>

lemma MkdirAll_keeps:
  "MkdirAll fs p = Inr fs' \<Longrightarrow> fs q = Some x \<Longrightarrow> fs' q = Some x"
proof (induction fs p arbitrary: fs' rule: MkdirAll.induct)
  case (1 fs p)
  show ?case
  proof (cases "stat fs p")
    case None
    with "1.prems"(1) obtain fs1 where parent: "MkdirAll fs (butlast p) = Inr fs1"
      and mk: "Mkdir fs1 p = Inr fs'"
      by (auto simp: MkdirAll.simps [of fs p] split: sum.splits)
    from "1.IH" [OF None parent "1.prems"(2)] have "fs1 q = Some x" .
    with mk show ?thesis
      by (auto simp: Mkdir_def split: if_splits option.splits node.splits)
  next
    case (Some n)
    with "1.prems" show ?thesis
      by (cases n) (auto simp: MkdirAll.simps [of fs p])
  qed
qed

lemma Mkdir_frame:
  "Mkdir fs p = Inr fs' \<Longrightarrow> q \<noteq> p \<Longrightarrow> fs' q = fs q"
  by (auto simp: Mkdir_def split: if_splits option.splits node.splits)

lemma MkdirAll_frame:
  "MkdirAll fs p = Inr fs' \<Longrightarrow> \<not> prefix q p \<Longrightarrow> fs' q = fs q"
proof (induction fs p arbitrary: fs' rule: MkdirAll.induct)
  case (1 fs p)
  show ?case
  proof (cases "stat fs p")
    case None
    with "1.prems"(1) obtain fs1 where parent: "MkdirAll fs (butlast p) = Inr fs1"
      and mk: "Mkdir fs1 p = Inr fs'"
      by (auto simp: MkdirAll.simps [of fs p] split: sum.splits)
    from "1.prems"(2) have "\<not> prefix q (butlast p)"
      by (metis prefix_order.trans prefixeq_butlast)
    from "1.IH" [OF None parent this] have "fs1 q = fs q" .
    moreover from "1.prems"(2) have "q \<noteq> p"
      by auto
    ultimately show ?thesis
      using Mkdir_frame [OF mk] by simp
  next
    case (Some n)
    with "1.prems" show ?thesis
      by (cases n) (auto simp: MkdirAll.simps [of fs p])
  qed
qed

lemma nothing_below_missing:
  assumes "wf_fs fs" and "fs p = None" and "p \<noteq> []"
  shows "fs (p @ ext) = None"
proof (induction ext rule: rev_induct)
  case Nil
  with assms(2) show ?case by simp
next
  case (snoc x xs)
  show ?case
  proof (rule ccontr)
    assume "fs (p @ xs @ [x]) \<noteq> None"
    with assms(1) have "stat fs (butlast (p @ xs @ [x])) = Some Dir"
      by (auto simp: wf_fs_def)
    then have "stat fs (p @ xs) = Some Dir"
      by (simp add: butlast_append)
    with assms(3) snoc show False
      by (simp add: stat_def)
  qed
qed

lemma WriteFile_result:
  "WriteFile fs p data = Inr fs' \<Longrightarrow> fs' = fs(p \<mapsto> File data)"
  by (auto simp: WriteFile_def split: if_splits option.splits node.splits)

lemma WriteFile_keeps_dir:
  "WriteFile fs p data = Inr fs' \<Longrightarrow> fs q = Some Dir \<Longrightarrow> fs' q = Some Dir"
  by (auto simp: WriteFile_def split: if_splits option.splits node.splits)

lemma copy_visit_keeps:
  assumes "copy_visit d fs (q, v) = Inr fs'" and "q \<noteq> p" and "fs (d @ p) = Some (File c)"
  shows "fs' (d @ p) = Some (File c)"
proof (cases v)
  case VDir
  with assms(1) have "MkdirAll fs (d @ q) = Inr fs'"
    by (simp add: copy_visit_def)
  from MkdirAll_keeps [OF this assms(3)] show ?thesis .
next
  case (VFile data)
  with assms(1) have "WriteFile fs (d @ q) data = Inr fs'"
    by (simp add: copy_visit_def)
  from WriteFile_result [OF this] assms(2,3) show ?thesis
    by simp
qed

lemma copy_visit_keeps_dir:
  "copy_visit d fs pv = Inr fs' \<Longrightarrow> fs q = Some Dir \<Longrightarrow> fs' q = Some Dir"
  by (cases pv) (auto simp: copy_visit_def Let_def dest: WriteFile_keeps_dir MkdirAll_keeps split: visit.splits)

lemma Walk_copy_keeps:
  "Walk (copy_visit d) fs vs = (None, fs') \<Longrightarrow> p \<notin> fst ` set vs \<Longrightarrow> fs (d @ p) = Some (File c)
   \<Longrightarrow> fs' (d @ p) = Some (File c)"
proof (induction vs arbitrary: fs)
  case Nil
  then show ?case by simp
next
  case (Cons v vs)
  obtain q x where v: "v = (q, x)"
    by (cases v)
  from Cons.prems(1) obtain fs1 where step: "copy_visit d fs (q, x) = Inr fs1"
    and rest: "Walk (copy_visit d) fs1 vs = (None, fs')"
    by (auto simp: v split: sum.splits)
  from Cons.prems(2) have "q \<noteq> p" and "p \<notin> fst ` set vs"
    by (auto simp: v)
  with Cons.IH [OF rest] copy_visit_keeps [OF step _ Cons.prems(3)] show ?case
    by blast
qed

lemma Walk_copy_keeps_dir:
  "Walk (copy_visit d) fs vs = (r, fs') \<Longrightarrow> fs q = Some Dir \<Longrightarrow> fs' q = Some Dir"
proof (induction vs arbitrary: fs)
  case Nil
  then show ?case by simp
next
  case (Cons v vs)
  show ?case
  proof (cases "copy_visit d fs v")
    case (Inl e)
    with Cons.prems show ?thesis by simp
  next
    case (Inr fs1)
    with Cons.prems(1) have "Walk (copy_visit d) fs1 vs = (r, fs')"
      by simp
    from Cons.IH [OF this copy_visit_keeps_dir [OF Inr Cons.prems(2)]] show ?thesis .
  qed
qed

lemma Walk_copy_file:
  "Walk (copy_visit d) fs vs = (None, fs') \<Longrightarrow> distinct (map fst vs) \<Longrightarrow> (p, VFile c) \<in> set vs
   \<Longrightarrow> fs' (d @ p) = Some (File c)"
proof (induction vs arbitrary: fs)
  case Nil
  then show ?case by simp
next
  case (Cons v vs)
  obtain q x where v: "v = (q, x)"
    by (cases v)
  from Cons.prems(1) obtain fs1 where step: "copy_visit d fs (q, x) = Inr fs1"
    and rest: "Walk (copy_visit d) fs1 vs = (None, fs')"
    by (auto simp: v split: sum.splits)
  from Cons.prems(2) have dist: "distinct (map fst vs)" and fresh: "q \<notin> fst ` set vs"
    by (auto simp: v)
  show ?case
  proof (cases "(p, VFile c) \<in> set vs")
    case True
    from Cons.IH [OF rest dist True] show ?thesis .
  next
    case False
    with Cons.prems(3) have here: "q = p" "x = VFile c"
      by (auto simp: v)
    with step have "WriteFile fs (d @ p) c = Inr fs1"
      by (simp add: copy_visit_def)
    from WriteFile_result [OF this] have "fs1 (d @ p) = Some (File c)"
      by simp
    from Walk_copy_keeps [OF rest _ this] fresh here show ?thesis
      by simp
  qed
qed

lemma copyMounted_keeps_dir:
  "copyMountedServiceFiles src fs d = (r, fs') \<Longrightarrow> fs q = Some Dir \<Longrightarrow> fs' q = Some Dir"
  by (cases src) (auto simp: copyMountedServiceFiles_def dest: Walk_copy_keeps_dir)

text \<open>
  In a well-formed tree every file is visited, and no relative path is visited twice.
\<close>

lemma tree_file_visits:
  "wf_tree t \<Longrightarrow> tree_file t p = Some c \<Longrightarrow> (p, VFile c) \<in> set (visits t)"
proof (induction t p rule: tree_file.induct)
  case (1 c' p)
  then show ?case by (simp split: if_splits)
next
  case (2 cs)
  then show ?case by simp
next
  case (3 cs n q)
  from "3.prems"(2) obtain t where look: "map_of cs n = Some t" and sub: "tree_file t q = Some c"
    by (auto split: option.splits)
  from look have mem: "(n, t) \<in> set cs"
    by (rule map_of_SomeD)
  with "3.prems"(1) have "wf_tree t"
    by (auto simp: list_all_iff)
  from "3.IH" [OF look this sub] have "(q, VFile c) \<in> set (visits t)" .
  with mem show ?case
    by (force simp: image_iff)
qed

lemma distinct_children:
  assumes "distinct (map fst cs)"
    and "\<And>n t. (n, t) \<in> set cs \<Longrightarrow> distinct (map fst (g t))"
  shows "distinct (map fst (concat (map (\<lambda>(n, t). map (\<lambda>(q, v). (n # q, v)) (g t)) cs)))"
  using assms
proof (induction cs)
  case Nil
  then show ?case by simp
next
  case (Cons a cs)
  obtain n t where a: "a = (n, t)"
    by (cases a)
  have fst_map: "\<And>m u. map fst (map (\<lambda>(q, v). (m # q, v)) (g u)) = map ((#) m) (map fst (g u))"
    by (simp add: case_prod_unfold comp_def)
  from Cons.prems(1) have n_fresh: "n \<notin> fst ` set cs" and dist: "distinct (map fst cs)"
    by (auto simp: a)
  have "distinct (map ((#) n) (map fst (g t)))"
    unfolding distinct_map [of "(#) n"] using Cons.prems(2) [of n t]
    by (simp add: a inj_on_def)
  then have head: "distinct (map fst (map (\<lambda>(q, v). (n # q, v)) (g t)))"
    by (simp only: fst_map)
  have tail: "distinct (map fst (concat (map (\<lambda>(n, t). map (\<lambda>(q, v). (n # q, v)) (g t)) cs)))"
  proof (rule Cons.IH [OF dist])
    fix m u
    assume "(m, u) \<in> set cs"
    then show "distinct (map fst (g u))"
      using Cons.prems(2) [of m u] by simp
  qed
  have disj: "set (map fst (map (\<lambda>(q, v). (n # q, v)) (g t)))
        \<inter> set (map fst (concat (map (\<lambda>(n, t). map (\<lambda>(q, v). (n # q, v)) (g t)) cs))) = {}"
    using n_fresh by (force simp: image_iff)
  from head tail disj show ?case
    by (simp add: a)
qed

lemma distinct_visits: "wf_tree t \<Longrightarrow> distinct (map fst (visits t))"
proof (induction t rule: visits.induct)
  case (1 c)
  then show ?case by simp
next
  case (2 cs)
  have sorted_dist: "distinct (map fst (sort_key fst cs))"
    using "2.prems" by (simp add: distinct_map inj_on_def) 
  have sub: "\<And>n t. (n, t) \<in> set (sort_key fst cs) \<Longrightarrow> distinct (map fst (visits t))"
  proof -
    fix n t
    assume mem: "(n, t) \<in> set (sort_key fst cs)"
    with "2.prems" have "wf_tree t"
      by (auto simp: list_all_iff)
    from "2.IH" [OF mem refl this] show "distinct (map fst (visits t))" .
  qed
  have "[] \<notin> fst ` set (concat (map (\<lambda>(n, t). map (\<lambda>(q, v). (n # q, v)) (visits t)) (sort_key fst cs)))"
    by (force simp: image_iff)
  with distinct_children [OF sorted_dist sub] show ?case
    by simp
qed

lemma copy_override_file:
  assumes "wf_tree t" and "copyMountedServiceFiles (Some t) fs d = (None, fs')"
    and "tree_file t p = Some c"
  shows "fs' (d @ p) = Some (File c)"
proof -
  from assms(2) have "Walk (copy_visit d) fs (visits t) = (None, fs')"
    by (simp add: copyMountedServiceFiles_def)
  from Walk_copy_file [OF this distinct_visits [OF assms(1)] tree_file_visits [OF assms(1,3)]]
  show ?thesis .
qed

text \<open>A plain name joins a directory as one more component.\<close>

lemma split_on_no_sep: "sep \<notin> set s \<Longrightarrow> split_on sep s = [s]"
  by (induction s) auto

lemma Join_name:
  assumes "CHR ''/'' \<notin> set n" and "n \<noteq> []" and "n \<noteq> ''.''" and "n \<noteq> ''..''"
  shows "Join d n = d @ [n]"
  using assms by (simp add: Join_def split_on_no_sep join_step_def)

lemma MkdirTemp_loop_created:
  "MkdirTemp_loop fs dir pre suf rs = Inr (name, fs') \<Longrightarrow> fs' name = Some Dir"
proof (induction rs)
  case Nil
  then show ?case by simp
next
  case (Cons r rs)
  show ?case
  proof (cases "Mkdir fs (dir @ [pre @ r @ suf])")
    case (Inl e)
    with Cons show ?thesis
      by (auto simp: Let_def split: if_splits)
  next
    case (Inr fs1)
    with Cons.prems have "name = dir @ [pre @ r @ suf]" and "fs' = fs1"
      by (auto simp: Let_def)
    with Inr show ?thesis
      by (auto simp: Mkdir_def split: if_splits option.splits node.splits)
  qed
qed

lemma os_MkdirTemp_created:
  assumes "os_MkdirTemp env w pattern = Inr (name, w')"
  shows "files w' name = Some Dir \<and> trace w' = trace w @ [Created name] \<and> CHR ''/'' \<notin> set pattern"
proof -
  from assms obtain fs' where mk: "MkdirTemp (files w) (tmp env) (rands env) pattern = Inr (name, fs')"
    and w': "w' = w\<lparr>files := fs', trace := trace w @ [Created name]\<rparr>"
    by (auto simp: os_MkdirTemp_def split: sum.splits)
  from mk have nosep: "CHR ''/'' \<notin> set pattern"
    by (auto simp: MkdirTemp_def prefixAndSuffix_def split: if_splits)
  from mk obtain pre suf where "MkdirTemp_loop (files w) (tmp env) pre suf (rands env) = Inr (name, fs')"
    by (auto simp: MkdirTemp_def split: option.splits)
  from MkdirTemp_loop_created [OF this] w' nosep show ?thesis
    by simp
qed

lemma MkdirTemp_loop_fresh:
  "MkdirTemp_loop fs dir pre suf rs = Inr (name, fs')
   \<Longrightarrow> fs name = None \<and> name \<noteq> [] \<and> fs' = fs(name \<mapsto> Dir)"
proof (induction rs)
  case Nil
  then show ?case by simp
next
  case (Cons r rs)
  show ?case
  proof (cases "Mkdir fs (dir @ [pre @ r @ suf])")
    case (Inl e)
    with Cons show ?thesis
      by (auto simp: Let_def split: if_splits)
  next
    case (Inr fs1)
    with Cons.prems have "name = dir @ [pre @ r @ suf]" and "fs' = fs1"
      by (auto simp: Let_def)
    with Inr show ?thesis
      by (auto simp: Mkdir_def split: if_splits option.splits node.splits)
  qed
qed

lemma os_MkdirTemp_fresh:
  assumes "os_MkdirTemp env w pattern = Inr (name, w')"
  shows "files w name = None \<and> name \<noteq> [] \<and> files w' = (files w)(name \<mapsto> Dir)"
proof -
  from assms obtain fs' where mk: "MkdirTemp (files w) (tmp env) (rands env) pattern = Inr (name, fs')"
    and w': "w' = w\<lparr>files := fs', trace := trace w @ [Created name]\<rparr>"
    by (auto simp: os_MkdirTemp_def split: sum.splits)
  from mk obtain pre suf where "MkdirTemp_loop (files w) (tmp env) pre suf (rands env) = Inr (name, fs')"
    by (auto simp: MkdirTemp_def split: option.splits)
  from MkdirTemp_loop_fresh [OF this] w' show ?thesis
    by simp
qed

text \<open>
  In a tree \<^verbatim>\<open>os.Stat\<close> finds what is there, and making directories leaves a tree.
\<close>

lemma os_Stat_wf:
  "wf_fs fs \<Longrightarrow> stat fs p = Some n \<Longrightarrow> os_Stat fs p = Inr n"
proof (induction p arbitrary: n rule: rev_induct)
  case Nil
  then show ?case
    by (simp add: os_Stat.simps [of fs "[]"] stat_def)
next
  case (snoc x xs)
  from snoc.prems have here: "fs (xs @ [x]) = Some n"
    by (simp add: stat_def)
  with snoc.prems(1) have "stat fs xs = Some Dir"
    by (auto simp: wf_fs_def)
  from snoc.IH [OF snoc.prems(1) this] have "os_Stat fs xs = Inr Dir" .
  with here show ?case
    by (simp add: os_Stat.simps [of fs "xs @ [x]"])
qed

lemma os_Stat_missing:
  "wf_fs fs \<Longrightarrow> stat fs p = Some Dir \<Longrightarrow> fs (p @ [x]) = None \<Longrightarrow> os_Stat fs (p @ [x]) = Inl ENOENT"
  using os_Stat_wf [of fs p Dir] by (simp add: os_Stat.simps [of fs "p @ [x]"])

lemma Mkdir_wf:
  assumes "Mkdir fs p = Inr fs'" and "wf_fs fs"
  shows "wf_fs fs' \<and> stat fs' p = Some Dir"
proof -
  from assms(1) have p: "p \<noteq> []" and parent: "stat fs (butlast p) = Some Dir"
    and fresh: "fs p = None" and fs': "fs' = fs(p \<mapsto> Dir)"
    by (auto simp: Mkdir_def split: if_splits option.splits node.splits)
  have "q \<noteq> [] \<and> stat fs' (butlast q) = Some Dir" if q: "fs' q \<noteq> None" for q
  proof (cases "q = p")
    case True
    have "butlast p \<noteq> p"
    proof
      assume eq: "butlast p = p"
      from p have "butlast p @ [last p] = p"
        by simp
      with eq have "p @ [last p] = p"
        by simp
      then show False
        by simp
    qed
    with True p parent show ?thesis
      by (auto simp: fs' stat_def split: if_splits)
  next
    case False
    with q have "fs q \<noteq> None"
      by (simp add: fs')
    with assms(2) have "q \<noteq> []" and "stat fs (butlast q) = Some Dir"
      by (auto simp: wf_fs_def)
    then show ?thesis
      by (auto simp: fs' stat_def)
  qed
  then have "wf_fs fs'"
    by (auto simp: wf_fs_def)
  with p show ?thesis
    by (simp add: fs' stat_def)
qed

lemma MkdirAll_wf:
  "MkdirAll fs p = Inr fs' \<Longrightarrow> wf_fs fs \<Longrightarrow> wf_fs fs' \<and> stat fs' p = Some Dir"
proof (induction fs p arbitrary: fs' rule: MkdirAll.induct)
  case (1 fs p)
  show ?case
  proof (cases "stat fs p")
    case None
    with "1.prems"(1) obtain fs1 where parent: "MkdirAll fs (butlast p) = Inr fs1"
      and mk: "Mkdir fs1 p = Inr fs'"
      by (auto simp: MkdirAll.simps [of fs p] split: sum.splits)
    from "1.IH" [OF None parent "1.prems"(2)] have "wf_fs fs1"
      by simp
    from Mkdir_wf [OF mk this] show ?thesis .
  next
    case (Some n)
    with "1.prems" show ?thesis
      by (cases n) (auto simp: MkdirAll.simps [of fs p])
  qed
qed

lemma MkdirTemp_loop_Mkdir:
  "MkdirTemp_loop fs dir pre suf rs = Inr (name, fs') \<Longrightarrow> Mkdir fs name = Inr fs'"
proof (induction rs)
  case Nil
  then show ?case by simp
next
  case (Cons r rs)
  show ?case
  proof (cases "Mkdir fs (dir @ [pre @ r @ suf])")
    case (Inl e)
    with Cons show ?thesis
      by (auto simp: Let_def split: if_splits)
  next
    case (Inr fs1)
    with Cons.prems show ?thesis
      by (auto simp: Let_def)
  qed
qed

lemma os_MkdirTemp_wf:
  assumes "os_MkdirTemp env w pattern = Inr (name, w')" and "wf_fs (files w)"
  shows "wf_fs (files w')"
proof -
  from assms(1) obtain pre suf where "MkdirTemp_loop (files w) (tmp env) pre suf (rands env) = Inr (name, files w')"
    by (auto simp: os_MkdirTemp_def MkdirTemp_def split: sum.splits option.splits)
  from Mkdir_wf [OF MkdirTemp_loop_Mkdir [OF this] assms(2)] show ?thesis
    by simp
qed

section \<open>Facts about traces\<close>

lemma execs_append [simp]: "execs (xs @ ys) = execs xs @ execs ys"
  by (induction xs rule: execs.induct) auto

lemma http_gets_append [simp]: "http_gets (xs @ ys) = http_gets xs @ http_gets ys"
  by (induction xs rule: http_gets.induct) auto

lemma listings_append [simp]: "listings (xs @ ys) = listings xs @ listings ys"
  by (induction xs rule: listings.induct) auto

lemma created_append [simp]: "created (xs @ ys) = created xs @ created ys"
  by (induction xs rule: created.induct) auto

lemma added_append [simp]: "added tr (tr @ evs) = evs"
  by (simp add: added_def)

lemma added_same [simp]: "added tr tr = []"
  by (simp add: added_def)

lemma http_gets_map [simp]: "http_gets (map HttpGet us) = us"
  by (induction us) auto

lemma execs_map_HttpGet [simp]: "execs (map HttpGet us) = []"
  by (induction us) auto

lemma listings_map_HttpGet [simp]: "listings (map HttpGet us) = []"
  by (induction us) auto

lemma created_map_HttpGet [simp]: "created (map HttpGet us) = []"
  by (induction us) auto

lemma observed_all:
  "(\<And>d a s. Exec d a s \<in> set evs \<Longrightarrow> s q = n) \<Longrightarrow> list_all (\<lambda>(a, m). m = n) (observed evs q)"
  by (induction evs q rule: observed.induct) auto

subsection \<open>Start\<close>

lemma downloadFileToPath_trace:
  "downloadFileToPath env w url p = (r, w') \<Longrightarrow> trace w' = trace w @ [HttpGet url]"
  by (auto simp: downloadFileToPath_def Let_def split: http_result.splits if_splits sum.splits)

lemma downloadFileToPath_keeps_dir:
  "downloadFileToPath env w url p = (r, w') \<Longrightarrow> files w q = Some Dir \<Longrightarrow> files w' q = Some Dir"
  by (auto simp: downloadFileToPath_def Let_def dest: WriteFile_keeps_dir
      split: http_result.splits if_splits sum.splits)

lemma downloadFileToPath_failed:
  "downloadFileToPath env w url p = (Some e, w') \<Longrightarrow> files w' = files w"
  by (auto simp: downloadFileToPath_def Let_def split: http_result.splits if_splits sum.splits)

lemma download_loop_trace:
  "download_loop env d es (w, n) = (w', n')
   \<Longrightarrow> trace w' = trace w @ map HttpGet (filter (\<lambda>u. u \<noteq> []) (map DownloadURL es))"
proof (induction es arbitrary: w n)
  case Nil
  then show ?case by simp
next
  case (Cons e es)
  show ?case
  proof (cases "DownloadURL e = []")
    case True
    with Cons show ?thesis by simp
  next
    case False
    obtain r w1 where dl: "downloadFileToPath env w (DownloadURL e) (Join d (Name e)) = (r, w1)"
      by (cases "downloadFileToPath env w (DownloadURL e) (Join d (Name e))")
    from Cons.prems False dl obtain n1 where "download_loop env d es (w1, n1) = (w', n')"
      by (cases r) (auto simp: Let_def)
    from Cons.IH [OF this] downloadFileToPath_trace [OF dl] False show ?thesis
      by simp
  qed
qed

lemma download_loop_keeps_dir:
  "download_loop env d es (w, n) = (w', n') \<Longrightarrow> files w q = Some Dir \<Longrightarrow> files w' q = Some Dir"
proof (induction es arbitrary: w n)
  case Nil
  then show ?case by simp
next
  case (Cons e es)
  show ?case
  proof (cases "DownloadURL e = []")
    case True
    with Cons show ?thesis by simp
  next
    case False
    obtain r w1 where dl: "downloadFileToPath env w (DownloadURL e) (Join d (Name e)) = (r, w1)"
      by (cases "downloadFileToPath env w (DownloadURL e) (Join d (Name e))")
    from Cons.prems(1) False dl obtain n1 where "download_loop env d es (w1, n1) = (w', n')"
      by (cases r) (auto simp: Let_def)
    from Cons.IH [OF this downloadFileToPath_keeps_dir [OF dl Cons.prems(2)]] show ?thesis .
  qed
qed

lemma download_loop_count:
  "download_loop env d es (w, n) = (w', n') \<Longrightarrow> n \<le> n' \<and> (n' = n \<longrightarrow> files w' = files w)"
proof (induction es arbitrary: w n)
  case Nil
  then show ?case by simp
next
  case (Cons e es)
  show ?case
  proof (cases "DownloadURL e = []")
    case True
    with Cons.prems have "download_loop env d es (w, n) = (w', n')"
      by simp
    from Cons.IH [OF this] show ?thesis .
  next
    case False
    obtain r w1 where dl: "downloadFileToPath env w (DownloadURL e) (Join d (Name e)) = (r, w1)"
      by (cases "downloadFileToPath env w (DownloadURL e) (Join d (Name e))")
    show ?thesis
    proof (cases r)
      case None
      with Cons.prems False dl have "download_loop env d es (w1, n + 1) = (w', n')"
        by (simp add: Let_def)
      from Cons.IH [OF this] show ?thesis
        by simp
    next
      case (Some err)
      with Cons.prems False dl have "download_loop env d es (w1, n) = (w', n')"
        by (simp add: Let_def)
      from Cons.IH [OF this] downloadFileToPath_failed [OF dl [unfolded Some]] show ?thesis
        by simp
    qed
  qed
qed

lemma fetch_trace:
  assumes "downloadServiceConfig_fetch env w svc ref = (r, w')"
  shows "\<exists>evs. trace w' = trace w @ GetContents (path_Join ''docker'' svc) ref # evs
           \<and> execs evs = [] \<and> listings evs = []
           \<and> (\<exists>es. (es = [] \<or> contents env (path_Join ''docker'' svc) ref = Inr es)
                   \<and> http_gets evs = filter (\<lambda>u. u \<noteq> []) (map DownloadURL es))"
proof (cases "contents env (path_Join ''docker'' svc) ref")
  case (Inl e)
  with assms have "trace w' = trace w @ [GetContents (path_Join ''docker'' svc) ref]"
    by (auto simp: downloadServiceConfig_fetch_def Let_def)
  then show ?thesis
    by (intro exI [of _ "[]"]) auto
next
  case (Inr es)
  show ?thesis
  proof (cases "es = []")
    case True
    with Inr assms have "trace w' = trace w @ [GetContents (path_Join ''docker'' svc) ref]"
      by (auto simp: downloadServiceConfig_fetch_def Let_def)
    then show ?thesis
      by (intro exI [of _ "[]"]) auto
  next
    case False
    let ?w0 = "w\<lparr>trace := trace w @ [GetContents (path_Join ''docker'' svc) ref]\<rparr>"
    show ?thesis
    proof (cases "os_MkdirTemp env ?w0 (''coach-service-'' @ svc @ ''-'')")
      case (Inl e)
      with Inr False assms have "trace w' = trace w @ [GetContents (path_Join ''docker'' svc) ref]"
        by (auto simp: downloadServiceConfig_fetch_def Let_def)
      then show ?thesis
        by (intro exI [of _ "[]"]) auto
    next
      case mk: (Inr tw)
      obtain tempDir w1 where tw: "tw = (tempDir, w1)"
        by (cases tw)
      from mk tw have w1: "trace w1 = trace w @ [GetContents (path_Join ''docker'' svc) ref, Created tempDir]"
        by (auto simp: os_MkdirTemp_def split: sum.splits)
      show ?thesis
      proof (cases "MkdirAll (files w1) (Join tempDir svc)")
        case (Inl e)
        with Inr False mk tw assms have "w' = w1"
          by (auto simp: downloadServiceConfig_fetch_def Let_def)
        with w1 show ?thesis
          by (intro exI [of _ "[Created tempDir]"]) auto
      next
        case dir: (Inr fs2)
        obtain w3 n where loop: "download_loop env (Join tempDir svc) es (w1\<lparr>files := fs2\<rparr>, 0) = (w3, n)"
          by (cases "download_loop env (Join tempDir svc) es (w1\<lparr>files := fs2\<rparr>, 0)")
        with Inr False mk tw dir assms have "w' = w3"
          by (auto simp: downloadServiceConfig_fetch_def Let_def)
        with download_loop_trace [OF loop] w1 Inr show ?thesis
          by (intro exI [of _ "Created tempDir # map HttpGet (filter (\<lambda>u. u \<noteq> []) (map DownloadURL es))"])
             auto
      qed
    qed
  qed
qed

lemma fetch_created:
  assumes "downloadServiceConfig_fetch env w svc ref = (r, w')"
    and "tempDir \<in> set (created (added (trace w) (trace w')))"
  shows "files w' tempDir = Some Dir \<and> CHR ''/'' \<notin> set svc
       \<and> (\<forall>serviceDir n. r = Inr (serviceDir, n) \<longrightarrow> serviceDir = Join tempDir svc)"
proof (cases "contents env (path_Join ''docker'' svc) ref")
  case (Inl e)
  with assms show ?thesis
    by (auto simp: downloadServiceConfig_fetch_def Let_def)
next
  case (Inr es)
  show ?thesis
  proof (cases "es = []")
    case True
    with Inr assms show ?thesis
      by (auto simp: downloadServiceConfig_fetch_def Let_def)
  next
    case False
    let ?w0 = "w\<lparr>trace := trace w @ [GetContents (path_Join ''docker'' svc) ref]\<rparr>"
    show ?thesis
    proof (cases "os_MkdirTemp env ?w0 (''coach-service-'' @ svc @ ''-'')")
      case (Inl e)
      with Inr False assms show ?thesis
        by (auto simp: downloadServiceConfig_fetch_def Let_def)
    next
      case mk: (Inr tw)
      obtain tmpd w1 where tw: "tw = (tmpd, w1)"
        by (cases tw)
      from os_MkdirTemp_created [OF mk [unfolded tw]]
      have w1: "files w1 tmpd = Some Dir"
        "trace w1 = trace w @ [GetContents (path_Join ''docker'' svc) ref, Created tmpd]"
        and nosep: "CHR ''/'' \<notin> set svc"
        by auto
      show ?thesis
      proof (cases "MkdirAll (files w1) (Join tmpd svc)")
        case (Inl e)
        with Inr False mk tw assms(1) have "w' = w1" and "\<exists>e. r = Inl e"
          by (auto simp: downloadServiceConfig_fetch_def Let_def)
        with w1 nosep assms(2) show ?thesis
          by auto
      next
        case dir: (Inr fs2)
        obtain w3 n where loop: "download_loop env (Join tmpd svc) es (w1\<lparr>files := fs2\<rparr>, 0) = (w3, n)"
          by (cases "download_loop env (Join tmpd svc) es (w1\<lparr>files := fs2\<rparr>, 0)")
        with Inr False mk tw dir assms(1) have res: "w' = w3" "r = Inr (Join tmpd svc, n)"
          by (auto simp: downloadServiceConfig_fetch_def Let_def)
        from MkdirAll_keeps [OF dir w1(1)] have "files (w1\<lparr>files := fs2\<rparr>) tmpd = Some Dir"
          by simp
        from download_loop_keeps_dir [OF loop this] have kept: "files w3 tmpd = Some Dir" .
        from download_loop_trace [OF loop] w1(2) res(1) assms(2) have "tempDir = tmpd"
          by simp
        with kept res nosep show ?thesis
          by simp
      qed
    qed
  qed
qed

lemma fetch_nothing_downloaded:
  assumes "downloadServiceConfig_fetch env w svc ref = (Inr (serviceDir, 0), w3)"
    and "wf_fs (files w)" and "svc \<noteq> []" and "svc \<noteq> ''..''"
  shows "files w3 (serviceDir @ x # xs) = None"
proof -
  let ?sp = "path_Join ''docker'' svc"
  let ?w0 = "w\<lparr>trace := trace w @ [GetContents ?sp ref]\<rparr>"
  from assms(1) obtain es tempDir w1 fs2 where
    mk: "os_MkdirTemp env ?w0 (''coach-service-'' @ svc @ ''-'') = Inr (tempDir, w1)"
    and sd: "serviceDir = Join tempDir svc"
    and dir: "MkdirAll (files w1) serviceDir = Inr fs2"
    and loop: "download_loop env serviceDir es (w1\<lparr>files := fs2\<rparr>, 0) = (w3, 0)"
    by (auto simp: downloadServiceConfig_fetch_def Let_def split: sum.splits if_splits prod.splits)
  from os_MkdirTemp_fresh [OF mk]
  have fresh: "files w tempDir = None" "tempDir \<noteq> []" and w1: "files w1 = (files w)(tempDir \<mapsto> Dir)"
    by simp_all
  from os_MkdirTemp_created [OF mk] have nosep: "CHR ''/'' \<notin> set svc"
    by simp
  have "serviceDir = tempDir \<or> serviceDir = tempDir @ [svc]"
  proof (cases "svc = ''.''")
    case True
    with sd show ?thesis
      by (simp add: Join_def join_step_def)
  next
    case False
    with sd Join_name [OF nosep assms(3) _ assms(4)] show ?thesis
      by simp
  qed
  then obtain mid where mid: "serviceDir = tempDir @ mid"
    by auto
  from download_loop_count [OF loop] have "files w3 = fs2"
    by simp
  moreover have "\<not> prefix (serviceDir @ x # xs) serviceDir"
    by (auto simp: prefix_def)
  from MkdirAll_frame [OF dir this] have "fs2 (serviceDir @ x # xs) = files w1 (serviceDir @ x # xs)" .
  moreover have "files w1 (serviceDir @ x # xs) = files w (tempDir @ (mid @ x # xs))"
    by (simp add: w1 mid)
  moreover from nothing_below_missing [OF assms(2) fresh] have "files w (tempDir @ (mid @ x # xs)) = None" .
  ultimately show ?thesis
    by simp
qed

lemma fetch_nothing_downloaded_wf:
  assumes "downloadServiceConfig_fetch env w svc ref = (Inr (serviceDir, 0), w3)"
    and "wf_fs (files w)"
  shows "wf_fs (files w3) \<and> stat (files w3) serviceDir = Some Dir"
proof -
  let ?sp = "path_Join ''docker'' svc"
  let ?w0 = "w\<lparr>trace := trace w @ [GetContents ?sp ref]\<rparr>"
  from assms(1) obtain es tempDir w1 fs2 where
    mk: "os_MkdirTemp env ?w0 (''coach-service-'' @ svc @ ''-'') = Inr (tempDir, w1)"
    and dir: "MkdirAll (files w1) serviceDir = Inr fs2"
    and loop: "download_loop env serviceDir es (w1\<lparr>files := fs2\<rparr>, 0) = (w3, 0)"
    by (auto simp: downloadServiceConfig_fetch_def Let_def split: sum.splits if_splits prod.splits)
  from os_MkdirTemp_wf [OF mk] assms(2) have "wf_fs (files w1)"
    by simp
  from MkdirAll_wf [OF dir this] download_loop_count [OF loop] show ?thesis
    by simp
qed

lemma downloadServiceConfig_trace:
  assumes "downloadServiceConfig env w svc ref = (r, w')"
  shows "\<exists>r3 w3. downloadServiceConfig_fetch env w svc ref = (r3, w3) \<and> trace w' = trace w3"
  using assms
  by (cases "downloadServiceConfig_fetch env w svc ref")
     (auto simp: downloadServiceConfig_def Let_def split: sum.splits prod.splits)

lemma Start_body_trace:
  assumes "Start_body env w workDir = (r, w')"
  shows "files w' = files w
       \<and> (\<exists>evs. trace w' = trace w @ evs \<and> http_gets evs = [] \<and> listings evs = []
              \<and> created evs = []
              \<and> (\<forall>d a s. Exec d a s \<in> set evs \<longrightarrow> d = Some workDir \<and> s = files w))"
  using assms
  by (auto simp: Start_body_def runDockerCompose_def cmd_Run_def split: option.splits)

subsection \<open>Assemble\<close>

lemma Assemble_body_unrecognized:
  assumes "Tag req \<noteq> TAG_LATEST" and "Tag req \<noteq> TAG_SHA"
    and "Assemble_body env w req repo tempDir = (r, w')"
  shows "(\<exists>e. r = Inl e)
       \<and> (\<exists>evs. trace w' = trace w @ evs \<and> created evs = []
              \<and> list_all (\<lambda>(d, a). take 1 a = [''git'']) (execs evs)
              \<and> (execs evs = [(None, [''git'', ''clone'', repo, path_str (Join tempDir (Repo req))])]
                  \<or> execs evs = [(None, [''git'', ''clone'', repo, path_str (Join tempDir (Repo req))]),
                                  (Some (Join tempDir (Repo req)), [''git'', ''checkout'', Ref req])])
              \<and> (r = Inl (Plain ''invalid docker tag'') \<longrightarrow>
                   execs evs = [(None, [''git'', ''clone'', repo, path_str (Join tempDir (Repo req))]),
                                (Some (Join tempDir (Repo req)), [''git'', ''checkout'', Ref req])]))"
  using assms
  by (auto simp: Assemble_body_def cloneRepo_def checkoutRef_def cmd_Run_def getDockerTag_def Let_def
        Errorf_w_def
      split: option.splits sum.splits AssembleRequest_Tag.splits)

lemma Assemble_body_trace:
  assumes "Assemble_body env w req repo tempDir = (r, w')"
  shows "\<exists>evs. trace w' = trace w @ evs \<and> created evs = []
           \<and> (\<forall>u. r = Inr u \<longrightarrow>
                 (Some (Join tempDir (Repo req)),
                  [''docker'', ''build'', ''--tag'',
                   ''registry.baileys.dev/'' @ Image req @ '':'' @ (if Tag req = TAG_LATEST then ''latest'' else Ref req),
                   ''--push'', ''--platform'', ''linux/amd64'', ''--file'',
                   getStringOrDefault (DockerfileLocation req) ''Dockerfile'',
                   getStringOrDefault (ContextLocation req) ''.'']) \<in> set (execs evs))"
  using assms
  by (auto simp: Assemble_body_def cloneRepo_def checkoutRef_def buildDockerImage_def cmd_Run_def
        getDockerTag_def Let_def
      split: option.splits sum.splits AssembleRequest_Tag.splits)

lemma Assemble_cases:
  assumes "Assemble env w req = (r, w')"
  obtains (invalid) e where "validateAssembleRequest req = Some e" and "r = Inl e" and "w' = w"
  | (no_workspace) e where "validateAssembleRequest req = None"
      and "r = Inl (Errorf_w ''failed to create temp directory'' e)" and "w' = w"
  | (ran) tempDir w1 r2 w2 where "validateAssembleRequest req = None"
      and "os_MkdirTemp env w (''coach-assemble-'' @ Repo req @ ''-'') = Inr (tempDir, w1)"
      and "Assemble_body env w1 req (''https://github.com/baely/'' @ Repo req) tempDir = (r2, w2)"
      and "r = r2" and "w' = os_RemoveAll w2 tempDir"
proof (cases "validateAssembleRequest req")
  case (Some e)
  with assms have "r = Inl e" and "w' = w"
    by (auto simp: Assemble_def)
  with Some show ?thesis
    by (rule invalid)
next
  case None
  show ?thesis
  proof (cases "os_MkdirTemp env w (''coach-assemble-'' @ Repo req @ ''-'')")
    case (Inl e)
    with None assms have "r = Inl (Errorf_w ''failed to create temp directory'' e)" and "w' = w"
      by (auto simp: Assemble_def)
    with None show ?thesis
      by (rule no_workspace)
  next
    case (Inr tw)
    obtain tempDir w1 where tw: "tw = (tempDir, w1)"
      by (cases tw)
    obtain r2 w2 where body: "Assemble_body env w1 req (''https://github.com/baely/'' @ Repo req) tempDir = (r2, w2)"
      by (cases "Assemble_body env w1 req (''https://github.com/baely/'' @ Repo req) tempDir")
    from None Inr tw body assms have "r = r2" and "w' = os_RemoveAll w2 tempDir"
      by (simp_all add: Assemble_def)
    with None Inr tw body show ?thesis
      by (intro ran) auto
  qed
qed

lemma Assemble_removes_workspace:
  assumes "Assemble env w req = (r, w')"
    and "tempDir \<in> set (created (added (trace w) (trace w')))"
    and "prefix tempDir q"
  shows "files w' q = None"
  using assms(1)
proof (cases rule: Assemble_cases)
  case (invalid e)
  with assms(2) show ?thesis
    by simp
next
  case (no_workspace e)
  with assms(2) show ?thesis
    by simp
next
  case (ran tmpd w1 r2 w2)
  from os_MkdirTemp_created [OF ran(2)] have w1: "trace w1 = trace w @ [Created tmpd]"
    by simp
  from Assemble_body_trace [OF ran(3)] obtain evs
    where evs: "trace w2 = trace w1 @ evs" "created evs = []"
    by blast
  from ran(5) w1 evs assms(2) have "tempDir = tmpd"
    by (simp add: os_RemoveAll_def)
  with ran(5) assms(3) show ?thesis
    by (simp add: os_RemoveAll_def RemoveAll_def)
qed

section \<open>The claims\<close>

subsection \<open>C1: an unrecognized tag strategy\<close>

text \<open>
  Claim C1, as amended.  The claim says that an \<^verbatim>\<open>Assemble\<close> call with an
  unrecognized tag strategy is rejected before a workspace directory is created and
  before a process is started.  \<^verbatim>\<open>validateAssembleRequest\<close> does not look at the
  tag: \<^verbatim>\<open>getDockerTag\<close> is called after the clone and the checkout.  What holds for
  every call whose tag strategy is neither Latest nor Sha: the call returns an error;
  the processes it starts are none (and then no workspace is created), or the clone
  into the one workspace it creates, or that clone followed by the checkout, and
  nothing else, so the image is never built; and when the error is that of the tag,
  the call has created its workspace and has run the clone and the checkout before.
\<close>

theorem unrecognized_tag_never_builds:
  assumes "Tag req \<noteq> TAG_LATEST" and "Tag req \<noteq> TAG_SHA"
    and "Assemble env w req = (r, w')"
  shows "(\<exists>e. r = Inl e)
       \<and> list_all (\<lambda>(d, a). take 1 a = [''git'']) (execs (added (trace w) (trace w')))
       \<and> (created (added (trace w) (trace w')) = [] \<and> execs (added (trace w) (trace w')) = []
          \<or> (\<exists>tempDir. created (added (trace w) (trace w')) = [tempDir]
                \<and> (execs (added (trace w) (trace w'))
                      = [(None, [''git'', ''clone'', ''https://github.com/baely/'' @ Repo req,
                                 path_str (Join tempDir (Repo req))])]
                    \<or> execs (added (trace w) (trace w'))
                      = [(None, [''git'', ''clone'', ''https://github.com/baely/'' @ Repo req,
                                 path_str (Join tempDir (Repo req))]),
                         (Some (Join tempDir (Repo req)), [''git'', ''checkout'', Ref req])])))
       \<and> (r = Inl (Plain ''invalid docker tag'') \<longrightarrow>
            (\<exists>tempDir. created (added (trace w) (trace w')) = [tempDir]
               \<and> execs (added (trace w) (trace w'))
                   = [(None, [''git'', ''clone'', ''https://github.com/baely/'' @ Repo req,
                              path_str (Join tempDir (Repo req))]),
                      (Some (Join tempDir (Repo req)), [''git'', ''checkout'', Ref req])]))"
  using assms(3)
proof (cases rule: Assemble_cases)
  case (invalid e)
  then have "r \<noteq> Inl (Plain ''invalid docker tag'')"
    by (auto simp: validateAssembleRequest_def split: if_splits)
  with invalid show ?thesis
    by simp
next
  case (no_workspace e)
  then show ?thesis
    by (simp add: Errorf_w_def)
next
  case (ran tempDir w1 r2 w2)
  from os_MkdirTemp_created [OF ran(2)] have w1: "trace w1 = trace w @ [Created tempDir]"
    by simp
  from Assemble_body_unrecognized [OF assms(1,2) ran(3)]
  obtain e evs where "r2 = Inl e" and "trace w2 = trace w1 @ evs" and "created evs = []"
    and "list_all (\<lambda>(d, a). take 1 a = [''git'']) (execs evs)"
    and "execs evs = [(None, [''git'', ''clone'', ''https://github.com/baely/'' @ Repo req,
                              path_str (Join tempDir (Repo req))])]
         \<or> execs evs = [(None, [''git'', ''clone'', ''https://github.com/baely/'' @ Repo req,
                                 path_str (Join tempDir (Repo req))]),
                         (Some (Join tempDir (Repo req)), [''git'', ''checkout'', Ref req])]"
    and "r2 = Inl (Plain ''invalid docker tag'') \<longrightarrow>
           execs evs = [(None, [''git'', ''clone'', ''https://github.com/baely/'' @ Repo req,
                                path_str (Join tempDir (Repo req))]),
                        (Some (Join tempDir (Repo req)), [''git'', ''checkout'', Ref req])]"
    by blast
  with ran(4,5) w1 show ?thesis
    by (auto simp: os_RemoveAll_def)
qed

text \<open>
  The theorem at a request with the strategy Unspecified, on a host where the clone
  and the checkout succeed.
\<close>

theorem unrecognized_tag_never_builds_witness:
  "Tag (ex_assemble TAG_UNSPECIFIED) \<noteq> TAG_LATEST \<and> Tag (ex_assemble TAG_UNSPECIFIED) \<noteq> TAG_SHA
   \<and> fst (Assemble (ex_env [] None) ex_world (ex_assemble TAG_UNSPECIFIED)) = Inl (Plain ''invalid docker tag'')
   \<and> list_all (\<lambda>(d, a). take 1 a = [''git''])
        (execs (added (trace ex_world)
           (trace (snd (Assemble (ex_env [] None) ex_world (ex_assemble TAG_UNSPECIFIED))))))
   \<and> (\<exists>tempDir. created (added (trace ex_world)
           (trace (snd (Assemble (ex_env [] None) ex_world (ex_assemble TAG_UNSPECIFIED))))) = [tempDir]
         \<and> execs (added (trace ex_world)
           (trace (snd (Assemble (ex_env [] None) ex_world (ex_assemble TAG_UNSPECIFIED)))))
             = [(None, [''git'', ''clone'', ''https://github.com/baely/'' @ Repo (ex_assemble TAG_UNSPECIFIED),
                        path_str (Join tempDir (Repo (ex_assemble TAG_UNSPECIFIED)))]),
                (Some (Join tempDir (Repo (ex_assemble TAG_UNSPECIFIED))),
                 [''git'', ''checkout'', Ref (ex_assemble TAG_UNSPECIFIED)])])"
proof -
  have h1: "Tag (ex_assemble TAG_UNSPECIFIED) \<noteq> TAG_LATEST"
    and h2: "Tag (ex_assemble TAG_UNSPECIFIED) \<noteq> TAG_SHA"
    by (simp_all add: ex_assemble_def)
  have res: "fst (Assemble (ex_env [] None) ex_world (ex_assemble TAG_UNSPECIFIED))
      = Inl (Plain ''invalid docker tag'')"
    by code_simp
  then have h3: "Assemble (ex_env [] None) ex_world (ex_assemble TAG_UNSPECIFIED)
      = (Inl (Plain ''invalid docker tag''),
         snd (Assemble (ex_env [] None) ex_world (ex_assemble TAG_UNSPECIFIED)))"
    by (metis prod.collapse)
  from unrecognized_tag_never_builds [OF h1 h2 h3] h1 h2 res show ?thesis
    by simp
qed

text \<open>
  Claim C1 as stated fails: for a request with the strategy Unspecified and
  well-formed fields, on a host where clone and checkout succeed, the error of the tag
  is returned after the workspace has been created and both \<^verbatim>\<open>git\<close> processes
  have run.
\<close>

theorem unrecognized_tag_rejected_after_clone:
  "fst (Assemble (ex_env [] None) ex_world (ex_assemble TAG_UNSPECIFIED)) = Inl (Plain ''invalid docker tag'')
   \<and> created (trace (snd (Assemble (ex_env [] None) ex_world (ex_assemble TAG_UNSPECIFIED))))
       = [[''tmp'', ''coach-assemble-blog-1'']]
   \<and> execs (trace (snd (Assemble (ex_env [] None) ex_world (ex_assemble TAG_UNSPECIFIED))))
       = [(None, [''git'', ''clone'', ''https://github.com/baely/blog'', ''/tmp/coach-assemble-blog-1/blog'']),
          (Some [''tmp'', ''coach-assemble-blog-1'', ''blog''], [''git'', ''checkout'', ''main''])]"
  by code_simp

subsection \<open>C2: removal of the workspace\<close>

text \<open>
  Claim C2: every workspace directory created during a call is gone when the call
  returns.  \<^verbatim>\<open>Assemble\<close> removes the directory that \<^verbatim>\<open>os.MkdirTemp\<close> created
  (\<open>Assemble_removes_workspace\<close>).  \<^verbatim>\<open>Start\<close> does not:
  \<^verbatim>\<open>downloadServiceConfig\<close> returns the service directory inside the temporary
  directory, and \<^verbatim>\<open>Start\<close> removes that subdirectory only.  For every
  \<^verbatim>\<open>Start\<close> call that creates its temporary directory, with a service name other
  than \<^verbatim>\<open>.\<close> and \<^verbatim>\<open>..\<close>, the temporary directory is still there when the call
  returns, whatever the result.
\<close>

theorem start_leaves_temp_dir:
  assumes "Start env w req = (r, w')"
    and "tempDir \<in> set (created (added (trace w) (trace w')))"
    and "Service req \<noteq> ''.''" and "Service req \<noteq> ''..''"
  shows "files w' tempDir = Some Dir"
proof (cases "validateStartRequest req")
  case (Some e)
  with assms(1) have "w' = w"
    by (simp add: Start_def)
  with assms(2) show ?thesis
    by simp
next
  case None
  then have nonempty: "Service req \<noteq> []"
    by (auto simp: validateStartRequest_def split: if_splits)
  obtain r3 w3 where fetch: "downloadServiceConfig_fetch env w (Service req) (StartRef req) = (r3, w3)"
    by (cases "downloadServiceConfig_fetch env w (Service req) (StartRef req)")
  from fetch_trace [OF fetch] obtain evs
    where w3: "trace w3 = trace w @ GetContents (path_Join ''docker'' (Service req)) (StartRef req) # evs"
    by blast
  show ?thesis
  proof (cases r3)
    case (Inl e)
    with fetch None assms(1) have "w' = w3"
      by (simp add: Start_def downloadServiceConfig_def)
    with fetch_created [OF fetch] assms(2) show ?thesis
      by simp
  next
    case (Inr sn)
    obtain serviceDir n where sn: "sn = (serviceDir, n)"
      by (cases sn)
    obtain err fs4 where copy: "copyMountedServiceFiles (mounted env (''/app/services/'' @ Service req))
        (files w3) serviceDir = (err, fs4)"
      by (cases "copyMountedServiceFiles (mounted env (''/app/services/'' @ Service req)) (files w3) serviceDir")
    let ?w1 = "w3\<lparr>files := fs4\<rparr>"
    from fetch Inr sn copy have dsc: "downloadServiceConfig env w (Service req) (StartRef req) = (Inr serviceDir, ?w1)"
      by (simp add: downloadServiceConfig_def)
    obtain r2 w2 where body: "Start_body env ?w1 serviceDir = (r2, w2)"
      by (cases "Start_body env ?w1 serviceDir")
    from Start_body_trace [OF body] obtain evs2
      where w2: "files w2 = fs4" "trace w2 = trace w3 @ evs2"
        and no_created: "created evs2 = []"
      by auto
    from None dsc body assms(1) have w': "w' = os_RemoveAll w2 serviceDir"
      by (simp add: Start_def)
    with w2 w3 no_created assms(2) have "tempDir \<in> set (created (added (trace w) (trace w3)))"
      by (simp add: os_RemoveAll_def)
    from fetch_created [OF fetch this] Inr sn
    have kept: "files w3 tempDir = Some Dir" and nosep: "CHR ''/'' \<notin> set (Service req)"
      and sd: "serviceDir = Join tempDir (Service req)"
      by auto
    from sd Join_name [OF nosep nonempty assms(3,4)] have "serviceDir = tempDir @ [Service req]"
      by simp
    then have "\<not> prefix serviceDir tempDir"
      by (auto simp: prefix_def)
    moreover from copyMounted_keeps_dir [OF copy kept] have "fs4 tempDir = Some Dir" .
    ultimately show ?thesis
      using w' w2 by (simp add: os_RemoveAll_def RemoveAll_def)
  qed
qed

text \<open>
  The theorem at a call that succeeds: \<^verbatim>\<open>/tmp/coach-service-blog-1\<close> is left
  behind.
\<close>

theorem start_leaves_temp_dir_witness:
  "Service ex_start \<noteq> ''.'' \<and> Service ex_start \<noteq> ''..''
   \<and> fst (Start (ex_env [ex_descriptor] None) ex_world ex_start) = Inr ()
   \<and> created (added (trace ex_world) (trace (snd (Start (ex_env [ex_descriptor] None) ex_world ex_start))))
       = [[''tmp'', ''coach-service-blog-1'']]
   \<and> files (snd (Start (ex_env [ex_descriptor] None) ex_world ex_start)) [''tmp'', ''coach-service-blog-1'']
       = Some Dir"
proof -
  have h1: "Service ex_start \<noteq> ''.''" and h2: "Service ex_start \<noteq> ''..''"
    by (simp_all add: ex_start_def)
  have ok: "fst (Start (ex_env [ex_descriptor] None) ex_world ex_start) = Inr ()"
    by code_simp
  have cr: "created (added (trace ex_world) (trace (snd (Start (ex_env [ex_descriptor] None) ex_world ex_start))))
       = [[''tmp'', ''coach-service-blog-1'']]"
    by code_simp
  then have mem: "[''tmp'', ''coach-service-blog-1'']
      \<in> set (created (added (trace ex_world) (trace (snd (Start (ex_env [ex_descriptor] None) ex_world ex_start)))))"
    by simp
  have run: "Start (ex_env [ex_descriptor] None) ex_world ex_start
      = (fst (Start (ex_env [ex_descriptor] None) ex_world ex_start),
         snd (Start (ex_env [ex_descriptor] None) ex_world ex_start))"
    by simp
  from start_leaves_temp_dir [OF run mem h1 h2] h1 h2 ok cr show ?thesis
    by simp
qed

subsection \<open>C3: a missing or empty remote directory\<close>

text \<open>
  Claim C3, as amended.  The claim says that \<^verbatim>\<open>Start\<close> fails with an error of
  class NotFound when the remote directory is missing or when no file is downloaded
  from it.  What holds for a valid \<^verbatim>\<open>Start\<close> call: when the listing fails (as it
  does for a missing directory) or has no entry, the call fails with a plain error,
  which carries no status code, after the listing request and before anything else
  happens.  And when no file is downloaded (\<^verbatim>\<open>downloadServiceConfig\<close> returns an
  error before its loop, or the loop ends with \<^verbatim>\<open>downloadedCount\<close> at 0), the host
  holds no local override for the service, the filesystem is a tree and the service
  is not \<^verbatim>\<open>..\<close>, the call fails with a plain error; this error is that the
  deployment descriptor is not found whenever the loop has ended with
  \<^verbatim>\<open>downloadedCount\<close> at 0.
\<close>

theorem missing_or_empty_or_undownloaded_fails:
  assumes "validateStartRequest req = None"
  shows "(contents env (path_Join ''docker'' (Service req)) (StartRef req) = Inl e
           \<or> contents env (path_Join ''docker'' (Service req)) (StartRef req) = Inr []
          \<longrightarrow> (\<exists>m. Start env w req =
                 (Inl (Plain m),
                  w\<lparr>trace := trace w @ [GetContents (path_Join ''docker'' (Service req)) (StartRef req)]\<rparr>)))
       \<and> (downloaded_files (fst (downloadServiceConfig_fetch env w (Service req) (StartRef req))) = 0
            \<and> mounted env (''/app/services/'' @ Service req) = None
            \<and> wf_fs (files w) \<and> Service req \<noteq> ''..''
          \<longrightarrow> (\<exists>m. fst (Start env w req) = Inl (Plain m))
              \<and> (\<forall>serviceDir fetched.
                    downloadServiceConfig_fetch env w (Service req) (StartRef req)
                      = (Inr (serviceDir, 0), fetched)
                    \<longrightarrow> fst (Start env w req) = Inl (Plain ''deploy.yaml not found in service directory'')))"
proof (intro conjI impI)
  assume "contents env (path_Join ''docker'' (Service req)) (StartRef req) = Inl e
           \<or> contents env (path_Join ''docker'' (Service req)) (StartRef req) = Inr []"
  with assms show "\<exists>m. Start env w req =
                 (Inl (Plain m),
                  w\<lparr>trace := trace w @ [GetContents (path_Join ''docker'' (Service req)) (StartRef req)]\<rparr>)"
    by (auto simp: Start_def downloadServiceConfig_def downloadServiceConfig_fetch_def Let_def Errorf_w_def)
next
  assume hyp: "downloaded_files (fst (downloadServiceConfig_fetch env w (Service req) (StartRef req))) = 0
            \<and> mounted env (''/app/services/'' @ Service req) = None
            \<and> wf_fs (files w) \<and> Service req \<noteq> ''..''"
  from assms have nonempty: "Service req \<noteq> []"
    by (auto simp: validateStartRequest_def split: if_splits)
  have descriptor: "fst (Start env w req) = Inl (Plain ''deploy.yaml not found in service directory'')"
    if fetch: "downloadServiceConfig_fetch env w (Service req) (StartRef req) = (Inr (serviceDir, 0), fetched)"
    for serviceDir fetched
  proof -
    from hyp fetch_nothing_downloaded [OF fetch _ nonempty, of "''deploy.yaml''" "[]"]
    have none: "files fetched (serviceDir @ [''deploy.yaml'']) = None"
      by simp
    from hyp fetch_nothing_downloaded_wf [OF fetch]
    have "wf_fs (files fetched)" and "stat (files fetched) serviceDir = Some Dir"
      by simp_all
    from os_Stat_missing [OF this none]
    have "validateDeployFile (files fetched) serviceDir = Some (Plain ''deploy.yaml not found in service directory'')"
      by (simp add: validateDeployFile_def Join_def join_step_def)
    with hyp assms fetch show ?thesis
      by (simp add: Start_def downloadServiceConfig_def copyMountedServiceFiles_def Start_body_def)
  qed
  then show "\<forall>serviceDir fetched.
                    downloadServiceConfig_fetch env w (Service req) (StartRef req)
                      = (Inr (serviceDir, 0), fetched)
                    \<longrightarrow> fst (Start env w req) = Inl (Plain ''deploy.yaml not found in service directory'')"
    by blast
  show "\<exists>m. fst (Start env w req) = Inl (Plain m)"
  proof (cases "downloadServiceConfig_fetch env w (Service req) (StartRef req)")
    case (Pair r3 fetched)
    show ?thesis
    proof (cases r3)
      case (Inl err)
      with Pair assms show ?thesis
        by (simp add: Start_def downloadServiceConfig_def Errorf_w_def)
    next
      case (Inr sn)
      with Pair hyp obtain serviceDir where "sn = (serviceDir, 0)"
        by (cases sn) (simp add: downloaded_files_def)
      with Pair Inr descriptor show ?thesis
        by blast
    qed
  qed
qed

text \<open>
  The theorem at a service directory that exists and is empty, and at a listing of
  one subdirectory without a local override.
\<close>

theorem missing_or_empty_or_undownloaded_fails_witness:
  "validateStartRequest ex_start = None
   \<and> contents (ex_env [] None) (path_Join ''docker'' (Service ex_start)) (StartRef ex_start) = Inr []
   \<and> Start (ex_env [] None) ex_world ex_start
       = (Inl (Plain ''failed to download service config: no files found in service directory docker/blog''),
          ex_world\<lparr>trace := trace ex_world @ [GetContents (path_Join ''docker'' (Service ex_start)) (StartRef ex_start)]\<rparr>)
   \<and> fst (downloadServiceConfig_fetch (ex_env [\<lparr>Name = ''sub'', DownloadURL = []\<rparr>] None) ex_world
             (Service ex_start) (StartRef ex_start))
       = Inr ([''tmp'', ''coach-service-blog-1'', ''blog''], 0)
   \<and> downloaded_files (fst (downloadServiceConfig_fetch (ex_env [\<lparr>Name = ''sub'', DownloadURL = []\<rparr>] None)
             ex_world (Service ex_start) (StartRef ex_start))) = 0
   \<and> mounted (ex_env [\<lparr>Name = ''sub'', DownloadURL = []\<rparr>] None) (''/app/services/'' @ Service ex_start) = None
   \<and> wf_fs (files ex_world) \<and> Service ex_start \<noteq> ''..''
   \<and> fst (Start (ex_env [\<lparr>Name = ''sub'', DownloadURL = []\<rparr>] None) ex_world ex_start)
       = Inl (Plain ''deploy.yaml not found in service directory'')"
proof -
  let ?env = "ex_env [\<lparr>Name = ''sub'', DownloadURL = []\<rparr>] None"
  have h1: "validateStartRequest ex_start = None"
    by code_simp
  have h2: "contents (ex_env [] None) (path_Join ''docker'' (Service ex_start)) (StartRef ex_start) = Inr []"
    by code_simp
  have msg: "fst (Start (ex_env [] None) ex_world ex_start)
       = Inl (Plain ''failed to download service config: no files found in service directory docker/blog'')"
    by code_simp
  have f1: "fst (downloadServiceConfig_fetch ?env ex_world (Service ex_start) (StartRef ex_start))
       = Inr ([''tmp'', ''coach-service-blog-1'', ''blog''], 0)"
    by code_simp
  then have fetch: "downloadServiceConfig_fetch ?env ex_world (Service ex_start) (StartRef ex_start)
       = (Inr ([''tmp'', ''coach-service-blog-1'', ''blog''], 0),
          snd (downloadServiceConfig_fetch ?env ex_world (Service ex_start) (StartRef ex_start)))"
    by (metis prod.collapse)
  from f1 have zero: "downloaded_files (fst (downloadServiceConfig_fetch ?env ex_world
      (Service ex_start) (StartRef ex_start))) = 0"
    by (simp add: downloaded_files_def)
  have mnt: "mounted ?env (''/app/services/'' @ Service ex_start) = None"
    by code_simp
  have wf: "wf_fs (files ex_world)"
    by (simp add: wf_fs_def ex_world_def stat_def)
  have dots: "Service ex_start \<noteq> ''..''"
    by (simp add: ex_start_def)
  from missing_or_empty_or_undownloaded_fails [OF h1, where env = "ex_env [] None" and w = ex_world
      and e = "Plain []"] h2
  obtain m where "Start (ex_env [] None) ex_world ex_start
       = (Inl (Plain m),
          ex_world\<lparr>trace := trace ex_world @ [GetContents (path_Join ''docker'' (Service ex_start)) (StartRef ex_start)]\<rparr>)"
    by blast
  with msg
  have a: "Start (ex_env [] None) ex_world ex_start
       = (Inl (Plain ''failed to download service config: no files found in service directory docker/blog''),
          ex_world\<lparr>trace := trace ex_world @ [GetContents (path_Join ''docker'' (Service ex_start)) (StartRef ex_start)]\<rparr>)"
    by simp
  from missing_or_empty_or_undownloaded_fails [OF h1, where env = ?env and w = ex_world
      and e = "Plain []"] zero fetch mnt wf dots
  have b: "fst (Start ?env ex_world ex_start) = Inl (Plain ''deploy.yaml not found in service directory'')"
    by blast
  from h1 h2 a f1 zero mnt wf dots b show ?thesis
    by simp
qed

text \<open>
  Claim C3 as stated fails: the listing holds one entry without a download URL, so
  nothing is fetched and \<^verbatim>\<open>downloadedCount\<close> is 0, the local override provides the
  descriptor, and the call succeeds.
\<close>

theorem no_download_yet_success:
  "fst (downloadServiceConfig_fetch (ex_env [\<lparr>Name = ''sub'', DownloadURL = []\<rparr>]
             (Some (D [(''deploy.yaml'', F ''local descriptor'')]))) ex_world (Service ex_start) (StartRef ex_start))
     = Inr ([''tmp'', ''coach-service-blog-1'', ''blog''], 0)
   \<and> http_gets (trace (snd (Start (ex_env [\<lparr>Name = ''sub'', DownloadURL = []\<rparr>]
             (Some (D [(''deploy.yaml'', F ''local descriptor'')]))) ex_world ex_start))) = []
   \<and> fst (Start (ex_env [\<lparr>Name = ''sub'', DownloadURL = []\<rparr>]
             (Some (D [(''deploy.yaml'', F ''local descriptor'')]))) ex_world ex_start) = Inr ()"
  by code_simp

subsection \<open>C4: failures of authentication\<close>

text \<open>
  Claim C4, as amended.  The claim says that a missing and an incorrect credential
  fail with the same error, so that the caller cannot tell them apart.  What holds:
  both fail with the code Unauthenticated, and the message differs: \<^verbatim>\<open>metadata not
  found\<close> or \<^verbatim>\<open>authorization header required\<close> for a missing credential,
  \<^verbatim>\<open>invalid token\<close> for an incorrect one.
\<close>

theorem auth_failures_unauthenticated:
  assumes "md_Get md1 ''authorization'' = []"
    and "md_Get md2 ''authorization'' = v # vs"
    and "TrimPrefix v ''Bearer '' \<noteq> expectedToken"
  shows "authInterceptor expectedToken None handler
           = Inl (Status Unauthenticated ''metadata not found'')
       \<and> authInterceptor expectedToken (Some md1) handler
           = Inl (Status Unauthenticated ''authorization header required'')
       \<and> authInterceptor expectedToken (Some md2) handler
           = Inl (Status Unauthenticated ''invalid token'')"
  using assms by (simp add: authInterceptor_def)

text \<open>
  The theorem at a call without the header and a call with a wrong token.
\<close>

theorem auth_failures_unauthenticated_witness:
  "md_Get Map.empty ''authorization'' = []
   \<and> md_Get (Map.empty(''authorization'' \<mapsto> [''Bearer wrong''])) ''authorization'' = [''Bearer wrong'']
   \<and> TrimPrefix ''Bearer wrong'' ''Bearer '' \<noteq> ''secret''
   \<and> authInterceptor ''secret'' None (Inr () :: error + unit)
        = Inl (Status Unauthenticated ''metadata not found'')
   \<and> authInterceptor ''secret'' (Some Map.empty) (Inr () :: error + unit)
        = Inl (Status Unauthenticated ''authorization header required'')
   \<and> authInterceptor ''secret'' (Some (Map.empty(''authorization'' \<mapsto> [''Bearer wrong''])))
        (Inr () :: error + unit)
        = Inl (Status Unauthenticated ''invalid token'')"
proof -
  have h1: "md_Get Map.empty ''authorization'' = []"
    by (simp add: md_Get_def)
  have h2: "md_Get (Map.empty(''authorization'' \<mapsto> [''Bearer wrong''])) ''authorization'' = [''Bearer wrong'']"
    by (simp add: md_Get_def)
  have h3: "TrimPrefix ''Bearer wrong'' ''Bearer '' \<noteq> ''secret''"
    by (simp add: TrimPrefix_def)
  show ?thesis
    using h1 h2 h3 auth_failures_unauthenticated [OF h1 h2 h3, where handler = "Inr () :: error + unit"] 
    by simp
qed

text \<open>
  Claim C4 as stated fails: the two errors are not identical.
\<close>

theorem auth_failure_messages_differ:
  "authInterceptor ''secret'' (Some Map.empty) (Inr () :: error + unit)
     = Inl (Status Unauthenticated ''authorization header required'')
   \<and> authInterceptor ''secret'' (Some (Map.empty(''authorization'' \<mapsto> [''Bearer wrong''])))
        (Inr () :: error + unit)
     = Inl (Status Unauthenticated ''invalid token'')
   \<and> authInterceptor ''secret'' (Some Map.empty) (Inr () :: error + unit)
     \<noteq> authInterceptor ''secret'' (Some (Map.empty(''authorization'' \<mapsto> [''Bearer wrong''])))
         (Inr ())"
  by (simp add: authInterceptor_def md_Get_def TrimPrefix_def)

subsection \<open>C5: a missing required field\<close>

text \<open>
  Claim C5, as amended.  The claim says that a request with an empty required field
  is answered with an error of class InvalidArgument before any workspace or process
  is created.  The validation builds its errors with \<^verbatim>\<open>fmt.Errorf\<close>: they carry no
  status code.  What holds: an \<^verbatim>\<open>Assemble\<close> request with an empty repo, ref or
  image and a \<^verbatim>\<open>Start\<close> request with an empty service or ref are answered with a
  plain error, and the filesystem and the trace are as they were.
\<close>

theorem missing_field_rejected_without_effects:
  "(Repo req = [] \<or> Ref req = [] \<or> Image req = [] \<longrightarrow> (\<exists>m. Assemble env w req = (Inl (Plain m), w)))
   \<and> (Service sreq = [] \<or> StartRef sreq = [] \<longrightarrow> (\<exists>m. Start env w sreq = (Inl (Plain m), w)))"
  by (auto simp: Assemble_def Start_def validateAssembleRequest_def validateStartRequest_def)

text \<open>
  The theorem at a request without an image and a request without a ref.
\<close>

theorem missing_field_rejected_without_effects_witness:
  "Image ((ex_assemble TAG_SHA)\<lparr>Image := []\<rparr>) = []
   \<and> (\<exists>m. Assemble (ex_env [] None) ex_world ((ex_assemble TAG_SHA)\<lparr>Image := []\<rparr>) = (Inl (Plain m), ex_world))
   \<and> StartRef (ex_start\<lparr>StartRef := []\<rparr>) = []
   \<and> (\<exists>m. Start (ex_env [] None) ex_world (ex_start\<lparr>StartRef := []\<rparr>) = (Inl (Plain m), ex_world))"
  using missing_field_rejected_without_effects
    [of "(ex_assemble TAG_SHA)\<lparr>Image := []\<rparr>" "ex_env [] None" ex_world "ex_start\<lparr>StartRef := []\<rparr>"]
  by simp

text \<open>
  Claim C5 as stated fails: the error returned for an empty repo is not of class
  InvalidArgument.
\<close>

theorem missing_field_error_has_no_code:
  "\<not> (\<exists>e. fst (Assemble (ex_env [] None) ex_world ((ex_assemble TAG_SHA)\<lparr>Repo := []\<rparr>)) = Inl e
          \<and> error_class e = Some InvalidArgument)"
  by (simp add: Assemble_def validateAssembleRequest_def ex_assemble_def)

subsection \<open>C6: the resolution of the tag\<close>

text \<open>
  Claim C6: the strategy Latest gives the tag \<^verbatim>\<open>latest\<close> whatever the ref, the
  strategy Sha gives the ref of the request as it is, and the strategy Unspecified
  gives an error.  Moreover, an \<^verbatim>\<open>Assemble\<close> call that succeeds has run the build
  with that tag after the image name.
\<close>

theorem tag_resolution:
  "getDockerTag (req\<lparr>Tag := TAG_LATEST\<rparr>) = Inr ''latest''
   \<and> getDockerTag (req\<lparr>Tag := TAG_SHA\<rparr>) = Inr (Ref req)
   \<and> getDockerTag (req\<lparr>Tag := TAG_UNSPECIFIED\<rparr>) = Inl (Plain ''invalid docker tag'')
   \<and> (\<forall>u w'. Assemble env w req = (Inr u, w') \<longrightarrow>
         (\<exists>d. (Some d,
                [''docker'', ''build'', ''--tag'',
                 ''registry.baileys.dev/'' @ Image req @ '':'' @ (if Tag req = TAG_LATEST then ''latest'' else Ref req),
                 ''--push'', ''--platform'', ''linux/amd64'', ''--file'',
                 getStringOrDefault (DockerfileLocation req) ''Dockerfile'',
                 getStringOrDefault (ContextLocation req) ''.''])
              \<in> set (execs (added (trace w) (trace w')))))"
proof -
  have "\<exists>d. (Some d,
                [''docker'', ''build'', ''--tag'',
                 ''registry.baileys.dev/'' @ Image req @ '':'' @ (if Tag req = TAG_LATEST then ''latest'' else Ref req),
                 ''--push'', ''--platform'', ''linux/amd64'', ''--file'',
                 getStringOrDefault (DockerfileLocation req) ''Dockerfile'',
                 getStringOrDefault (ContextLocation req) ''.''])
              \<in> set (execs (added (trace w) (trace w')))"
    if run: "Assemble env w req = (Inr u, w')" for u w'
    using run
  proof (cases rule: Assemble_cases)
    case (invalid e)
    then show ?thesis
      by simp
  next
    case (no_workspace e)
    then show ?thesis
      by simp
  next
    case (ran tempDir w1 r2 w2)
    from os_MkdirTemp_created [OF ran(2)] have w1: "trace w1 = trace w @ [Created tempDir]"
      by simp
    from Assemble_body_trace [OF ran(3)] ran(4) obtain evs
      where "trace w2 = trace w1 @ evs"
        and "(Some (Join tempDir (Repo req)),
                [''docker'', ''build'', ''--tag'',
                 ''registry.baileys.dev/'' @ Image req @ '':'' @ (if Tag req = TAG_LATEST then ''latest'' else Ref req),
                 ''--push'', ''--platform'', ''linux/amd64'', ''--file'',
                 getStringOrDefault (DockerfileLocation req) ''Dockerfile'',
                 getStringOrDefault (ContextLocation req) ''.'']) \<in> set (execs evs)"
      by blast
    with ran(5) w1 show ?thesis
      by (auto simp: os_RemoveAll_def intro!: exI [of _ "Join tempDir (Repo req)"])
  qed
  then show ?thesis
    by (simp add: getDockerTag_def)
qed

text \<open>
  The theorem at a request with the ref \<^verbatim>\<open>main\<close> and the strategy Sha: the
  image is pushed as \<^verbatim>\<open>registry.baileys.dev/blog:main\<close>.
\<close>

theorem tag_resolution_witness:
  "getDockerTag ((ex_assemble TAG_SHA)\<lparr>Tag := TAG_LATEST\<rparr>) = Inr ''latest''
   \<and> getDockerTag ((ex_assemble TAG_SHA)\<lparr>Tag := TAG_SHA\<rparr>) = Inr ''main''
   \<and> getDockerTag ((ex_assemble TAG_SHA)\<lparr>Tag := TAG_UNSPECIFIED\<rparr>) = Inl (Plain ''invalid docker tag'')
   \<and> fst (Assemble (ex_env [] None) ex_world (ex_assemble TAG_SHA)) = Inr ()
   \<and> (\<exists>d. (Some d,
            [''docker'', ''build'', ''--tag'', ''registry.baileys.dev/blog:main'', ''--push'',
             ''--platform'', ''linux/amd64'', ''--file'', ''Dockerfile'', ''.''])
          \<in> set (execs (added (trace ex_world)
                (trace (snd (Assemble (ex_env [] None) ex_world (ex_assemble TAG_SHA)))))))"
proof -
  have ok: "fst (Assemble (ex_env [] None) ex_world (ex_assemble TAG_SHA)) = Inr ()"
    by code_simp
  then have run: "Assemble (ex_env [] None) ex_world (ex_assemble TAG_SHA)
      = (Inr (), snd (Assemble (ex_env [] None) ex_world (ex_assemble TAG_SHA)))"
    by (metis prod.collapse)
  from tag_resolution [of "ex_assemble TAG_SHA" "ex_env [] None" ex_world] run ok show ?thesis
    by (simp add: ex_assemble_def getStringOrDefault_def)
qed

subsection \<open>C7: local override files\<close>

text \<open>
  Claim C7, as amended.  The claim says that whenever a local override file has the
  relative path of a downloaded file, the compose steps observe the content of the
  override.  \<^verbatim>\<open>downloadServiceConfig\<close> only logs an error of
  \<^verbatim>\<open>copyMountedServiceFiles\<close>, and the walk stops at the first entry that cannot be
  copied.  What holds: when the copy of a well-formed override tree over the
  downloaded files returns without an error, every process that \<^verbatim>\<open>Start\<close>
  runs (the pull and the up step) has the service directory as its working directory
  and finds there, at the relative path of every file of the override tree, the
  content of the override.
\<close>

theorem override_wins_when_copy_completes:
  assumes "downloadServiceConfig_fetch env w (Service req) (StartRef req) = (Inr (serviceDir, n), w3)"
    and "mounted env (''/app/services/'' @ Service req) = Some t"
    and "wf_tree t"
    and "copyMountedServiceFiles (Some t) (files w3) serviceDir = (None, fs4)"
    and "tree_file t p = Some c"
    and "Start env w req = (r, w')"
    and "Exec d a snap \<in> set (added (trace w) (trace w'))"
  shows "d = Some serviceDir \<and> snap (serviceDir @ p) = Some (File c)"
proof (cases "validateStartRequest req")
  case (Some e)
  with assms(6) have "w' = w"
    by (simp add: Start_def)
  with assms(7) show ?thesis
    by simp
next
  case None
  let ?w1 = "w3\<lparr>files := fs4\<rparr>"
  from assms(1,2,4) have dsc: "downloadServiceConfig env w (Service req) (StartRef req) = (Inr serviceDir, ?w1)"
    by (simp add: downloadServiceConfig_def)
  from fetch_trace [OF assms(1)] obtain evs
    where w3: "trace w3 = trace w @ GetContents (path_Join ''docker'' (Service req)) (StartRef req) # evs"
      and evs: "execs evs = []"
    by blast
  have no_exec: "Exec d a snap \<notin> set evs"
  proof
    assume "Exec d a snap \<in> set evs"
    then obtain xs ys where "evs = xs @ Exec d a snap # ys"
      by (auto simp: in_set_conv_decomp)
    with evs show False
      by simp
  qed
  obtain r2 w2 where body: "Start_body env ?w1 serviceDir = (r2, w2)"
    by (cases "Start_body env ?w1 serviceDir")
  from Start_body_trace [OF body] obtain evs2
    where w2: "trace w2 = trace ?w1 @ evs2"
      and ex: "\<forall>d a s. Exec d a s \<in> set evs2 \<longrightarrow> d = Some serviceDir \<and> s = files ?w1"
    by blast
  from None dsc body assms(6) have "w' = os_RemoveAll w2 serviceDir"
    by (simp add: Start_def)
  with w2 w3 have "added (trace w) (trace w')
      = GetContents (path_Join ''docker'' (Service req)) (StartRef req) # evs @ evs2 @ [Removed serviceDir]"
    by (simp add: os_RemoveAll_def)
  with assms(7) no_exec have "Exec d a snap \<in> set evs2"
    by auto
  with ex have "d = Some serviceDir" and "snap = fs4"
    by auto
  with copy_override_file [OF assms(3,4,5)] show ?thesis
    by simp
qed

text \<open>
  The theorem at an override of the descriptor: both compose steps find the local
  descriptor.
\<close>

theorem override_wins_when_copy_completes_witness:
  "wf_tree (D [(''deploy.yaml'', F ''local descriptor'')])
   \<and> tree_file (D [(''deploy.yaml'', F ''local descriptor'')]) [''deploy.yaml''] = Some ''local descriptor''
   \<and> fst (downloadServiceConfig_fetch (ex_env [ex_descriptor] (Some (D [(''deploy.yaml'', F ''local descriptor'')])))
            ex_world (Service ex_start) (StartRef ex_start))
       = Inr ([''tmp'', ''coach-service-blog-1'', ''blog''], 1)
   \<and> fst (copyMountedServiceFiles (Some (D [(''deploy.yaml'', F ''local descriptor'')]))
            (files (snd (downloadServiceConfig_fetch
               (ex_env [ex_descriptor] (Some (D [(''deploy.yaml'', F ''local descriptor'')])))
               ex_world (Service ex_start) (StartRef ex_start))))
            [''tmp'', ''coach-service-blog-1'', ''blog'']) = None
   \<and> map fst (observed (added (trace ex_world)
        (trace (snd (Start (ex_env [ex_descriptor] (Some (D [(''deploy.yaml'', F ''local descriptor'')])))
           ex_world ex_start))))
        ([''tmp'', ''coach-service-blog-1'', ''blog''] @ [''deploy.yaml'']))
       = [[''docker'', ''compose'', ''-f'', ''deploy.yaml'', ''pull''],
          [''docker'', ''compose'', ''-f'', ''deploy.yaml'', ''up'', ''-d'']]
   \<and> list_all (\<lambda>(a, m). m = Some (File ''local descriptor''))
        (observed (added (trace ex_world)
           (trace (snd (Start (ex_env [ex_descriptor] (Some (D [(''deploy.yaml'', F ''local descriptor'')])))
              ex_world ex_start))))
           ([''tmp'', ''coach-service-blog-1'', ''blog''] @ [''deploy.yaml'']))"
proof -
  let ?t = "D [(''deploy.yaml'', F ''local descriptor'')]"
  let ?env = "ex_env [ex_descriptor] (Some ?t)"
  let ?sd = "[''tmp'', ''coach-service-blog-1'', ''blog'']"
  let ?w3 = "snd (downloadServiceConfig_fetch ?env ex_world (Service ex_start) (StartRef ex_start))"
  have wf: "wf_tree ?t"
    by code_simp
  have look: "tree_file ?t [''deploy.yaml''] = Some ''local descriptor''"
    by code_simp
  have f1: "fst (downloadServiceConfig_fetch ?env ex_world (Service ex_start) (StartRef ex_start)) = Inr (?sd, 1)"
    by code_simp
  then have fetch: "downloadServiceConfig_fetch ?env ex_world (Service ex_start) (StartRef ex_start) = (Inr (?sd, 1), ?w3)"
    by (metis prod.collapse)
  have mnt: "mounted ?env (''/app/services/'' @ Service ex_start) = Some ?t"
    by code_simp
  have c1: "fst (copyMountedServiceFiles (Some ?t) (files ?w3) ?sd) = None"
    by code_simp
  then have copy: "copyMountedServiceFiles (Some ?t) (files ?w3) ?sd
      = (None, snd (copyMountedServiceFiles (Some ?t) (files ?w3) ?sd))"
    by (metis prod.collapse)
  have run: "Start ?env ex_world ex_start = (fst (Start ?env ex_world ex_start), snd (Start ?env ex_world ex_start))"
    by simp
  have cmds: "map fst (observed (added (trace ex_world) (trace (snd (Start ?env ex_world ex_start))))
        (?sd @ [''deploy.yaml'']))
       = [[''docker'', ''compose'', ''-f'', ''deploy.yaml'', ''pull''],
          [''docker'', ''compose'', ''-f'', ''deploy.yaml'', ''up'', ''-d'']]"
    by code_simp
  have "list_all (\<lambda>(a, m). m = Some (File ''local descriptor''))
        (observed (added (trace ex_world) (trace (snd (Start ?env ex_world ex_start))))
           (?sd @ [''deploy.yaml'']))"
  proof (rule observed_all)
    fix d a s
    assume "Exec d a s \<in> set (added (trace ex_world) (trace (snd (Start ?env ex_world ex_start))))"
    from override_wins_when_copy_completes [OF fetch mnt wf copy look run this]
    show "s (?sd @ [''deploy.yaml'']) = Some (File ''local descriptor'')"
      by simp
  qed
  with wf look f1 c1 cmds show ?thesis
    by blast
qed

text \<open>
  Claim C7 as stated fails: the control repository holds the files \<^verbatim>\<open>a\<close> and
  \<^verbatim>\<open>deploy.yaml\<close>, the local override holds a directory \<^verbatim>\<open>a\<close> and a file
  \<^verbatim>\<open>deploy.yaml\<close>.  The walk visits \<^verbatim>\<open>a\<close> first and fails there, since a file
  of that name has been downloaded; the local descriptor is not copied, and both
  compose steps find the downloaded one.
\<close>

theorem override_lost_when_copy_aborts:
  "tree_file (D [(''deploy.yaml'', F ''local descriptor''), (''a'', D [])]) [''deploy.yaml'']
     = Some ''local descriptor''
   \<and> http_gets (trace (snd (Start (ex_env [\<lparr>Name = ''a'', DownloadURL = ''https://raw/a''\<rparr>, ex_descriptor]
         (Some (D [(''deploy.yaml'', F ''local descriptor''), (''a'', D [])]))) ex_world ex_start)))
     = [''https://raw/a'', ''https://raw/deploy.yaml'']
   \<and> fst (Start (ex_env [\<lparr>Name = ''a'', DownloadURL = ''https://raw/a''\<rparr>, ex_descriptor]
         (Some (D [(''deploy.yaml'', F ''local descriptor''), (''a'', D [])]))) ex_world ex_start) = Inr ()
   \<and> observed (trace (snd (Start (ex_env [\<lparr>Name = ''a'', DownloadURL = ''https://raw/a''\<rparr>, ex_descriptor]
         (Some (D [(''deploy.yaml'', F ''local descriptor''), (''a'', D [])]))) ex_world ex_start)))
        [''tmp'', ''coach-service-blog-1'', ''blog'', ''deploy.yaml'']
     = [([''docker'', ''compose'', ''-f'', ''deploy.yaml'', ''pull''], Some (File ''remote descriptor'')),
        ([''docker'', ''compose'', ''-f'', ''deploy.yaml'', ''up'', ''-d''], Some (File ''remote descriptor''))]"
  by code_simp

subsection \<open>C8: no deployment of the orchestrator itself\<close>

text \<open>
  Claim C8: \<^verbatim>\<open>Start\<close> with the service \<^verbatim>\<open>github.com_baely_infra\<close>, the name
  that \<^verbatim>\<open>validateStartRequest\<close> refuses as the identity of the orchestrator, fails
  for every ref, and nothing is attempted: the filesystem and the trace are as they
  were.
\<close>

theorem self_deploy_refused:
  "Start env w \<lparr>Service = ''github.com_baely_infra'', StartRef = X\<rparr>
     = (Inl (Plain (if X = [] then ''ref is required'' else ''coach cannot deploy coach'')), w)"
  by (simp add: Start_def validateStartRequest_def)

text \<open>
  The theorem at the ref \<^verbatim>\<open>main\<close>.
\<close>

theorem self_deploy_refused_witness:
  "Start (ex_env [ex_descriptor] None) ex_world \<lparr>Service = ''github.com_baely_infra'', StartRef = ''main''\<rparr>
     = (Inl (Plain ''coach cannot deploy coach''), ex_world)"
  using self_deploy_refused [of "ex_env [ex_descriptor] None" ex_world "''main''"]
  by simp

subsection \<open>C9: the token with and without the prefix\<close>

text \<open>
  Claim C9, as amended.  The claim says that a call that carries the configured
  secret without the prefix \<^verbatim>\<open>Bearer \<close> is authenticated, so that the bare token
  and the token after the prefix are both accepted.  The interceptor looks at the
  first authorization value only and strips the prefix from it whenever it is there.
  What holds for the first authorization value of a call: when it is the secret after
  \<^verbatim>\<open>Bearer \<close>, the call is authenticated; when it is the bare secret, the call
  is authenticated if the secret does not begin with \<^verbatim>\<open>Bearer \<close>, and it is
  refused with \<^verbatim>\<open>invalid token\<close> if the secret does.  An authenticated call
  returns what the handler returns.
\<close>

theorem token_with_and_without_prefix:
  assumes "md_Get md ''authorization'' = v # vs"
  shows "(v = ''Bearer '' @ expectedToken \<longrightarrow> authInterceptor expectedToken (Some md) handler = handler)
       \<and> (v = expectedToken \<and> \<not> prefix ''Bearer '' expectedToken
            \<longrightarrow> authInterceptor expectedToken (Some md) handler = handler)
       \<and> (v = expectedToken \<and> prefix ''Bearer '' expectedToken
            \<longrightarrow> authInterceptor expectedToken (Some md) handler
                  = Inl (Status Unauthenticated ''invalid token''))"
proof -
  have "drop (length ''Bearer '') expectedToken \<noteq> expectedToken" if "prefix ''Bearer '' expectedToken"
  proof
    assume "drop (length ''Bearer '') expectedToken = expectedToken"
    then have "length (drop (length ''Bearer '') expectedToken) = length expectedToken"
      by simp
    moreover from that have "length ''Bearer '' \<le> length expectedToken"
      by (rule prefix_length_le)
    ultimately show False
      by simp
  qed
  with assms show ?thesis
    by (auto simp: authInterceptor_def TrimPrefix_def)
qed

text \<open>
  The theorem at the secret \<^verbatim>\<open>secret\<close>, sent bare and sent after the prefix,
  and at the secret \<^verbatim>\<open>Bearer abc\<close>, sent bare.
\<close>

theorem token_with_and_without_prefix_witness:
  "md_Get (Map.empty(''authorization'' \<mapsto> [''secret''])) ''authorization'' = [''secret'']
   \<and> \<not> prefix ''Bearer '' ''secret''
   \<and> authInterceptor ''secret'' (Some (Map.empty(''authorization'' \<mapsto> [''secret'']))) (Inr () :: error + unit)
       = Inr ()
   \<and> md_Get (Map.empty(''authorization'' \<mapsto> [''Bearer secret''])) ''authorization'' = [''Bearer secret'']
   \<and> authInterceptor ''secret'' (Some (Map.empty(''authorization'' \<mapsto> [''Bearer secret''])))
        (Inr () :: error + unit)
       = Inr ()
   \<and> md_Get (Map.empty(''authorization'' \<mapsto> [''Bearer abc''])) ''authorization'' = [''Bearer abc'']
   \<and> prefix ''Bearer '' ''Bearer abc''
   \<and> authInterceptor ''Bearer abc'' (Some (Map.empty(''authorization'' \<mapsto> [''Bearer abc''])))
        (Inr () :: error + unit)
       = Inl (Status Unauthenticated ''invalid token'')"
proof -
  have h1: "md_Get (Map.empty(''authorization'' \<mapsto> [''secret''])) ''authorization'' = [''secret'']"
    by (simp add: md_Get_def)
  have h2: "\<not> prefix ''Bearer '' ''secret''"
    by simp
  have h4: "md_Get (Map.empty(''authorization'' \<mapsto> [''Bearer secret''])) ''authorization'' = [''Bearer secret'']"
    by (simp add: md_Get_def)
  have h5: "md_Get (Map.empty(''authorization'' \<mapsto> [''Bearer abc''])) ''authorization'' = [''Bearer abc'']"
    by (simp add: md_Get_def)
  have h6: "prefix ''Bearer '' ''Bearer abc''"
    by simp
  from token_with_and_without_prefix [OF h1, where expectedToken = "''secret''" and handler = "Inr () :: error + unit"]
    token_with_and_without_prefix [OF h4, where expectedToken = "''secret''" and handler = "Inr () :: error + unit"]
    token_with_and_without_prefix [OF h5, where expectedToken = "''Bearer abc''" and handler = "Inr () :: error + unit"]
    h1 h2 h4 h5 h6
  show ?thesis
    by simp
qed

text \<open>
  Claim C9 as stated fails: a secret that begins with \<^verbatim>\<open>Bearer \<close> is stripped and
  rejected when it is sent bare, and a secret that is not the first authorization
  value is not looked at.
\<close>

theorem bare_token_not_always_accepted:
  "authInterceptor ''Bearer abc'' (Some (Map.empty(''authorization'' \<mapsto> [''Bearer abc''])))
        (Inr () :: error + unit)
     = Inl (Status Unauthenticated ''invalid token'')
   \<and> authInterceptor ''secret'' (Some (Map.empty(''authorization'' \<mapsto> [''wrong'', ''secret''])))
        (Inr () :: error + unit)
     = Inl (Status Unauthenticated ''invalid token'')"
  by (simp add: authInterceptor_def md_Get_def TrimPrefix_def)

subsection \<open>C10: only the entries with a download URL are fetched\<close>

text \<open>
  Claim C10: of the entries of \<^verbatim>\<open>docker/<service-name>\<close>, \<^verbatim>\<open>Start\<close> fetches
  those with a download URL and no others.  The URLs fetched by a call are, in order,
  the download URLs of the listing that are not empty (or none, when the call ends
  before the downloads), and the call requests at most one listing, that of
  \<^verbatim>\<open>docker/<service-name>\<close> itself: a subdirectory is neither fetched nor listed.
\<close>

theorem only_listed_download_urls_are_fetched:
  assumes "Start env w req = (r, w')"
  shows "(\<exists>es. (es = [] \<or> contents env (path_Join ''docker'' (Service req)) (StartRef req) = Inr es)
              \<and> http_gets (added (trace w) (trace w')) = filter (\<lambda>u. u \<noteq> []) (map DownloadURL es))
       \<and> (listings (added (trace w) (trace w')) = []
          \<or> listings (added (trace w) (trace w')) = [(path_Join ''docker'' (Service req), StartRef req)])"
proof (cases "validateStartRequest req")
  case (Some e)
  with assms have "w' = w"
    by (simp add: Start_def)
  then show ?thesis
    by (auto intro: exI [of _ "[]"])
next
  case None
  obtain r1 w1 where dsc: "downloadServiceConfig env w (Service req) (StartRef req) = (r1, w1)"
    by (cases "downloadServiceConfig env w (Service req) (StartRef req)")
  from downloadServiceConfig_trace [OF dsc] obtain r3 w3
    where fetch: "downloadServiceConfig_fetch env w (Service req) (StartRef req) = (r3, w3)"
      and same: "trace w1 = trace w3"
    by blast
  from fetch_trace [OF fetch] same obtain evs es
    where w1: "trace w1 = trace w @ GetContents (path_Join ''docker'' (Service req)) (StartRef req) # evs"
      and evs: "execs evs = []" "listings evs = []"
      and es: "es = [] \<or> contents env (path_Join ''docker'' (Service req)) (StartRef req) = Inr es"
      and gets: "http_gets evs = filter (\<lambda>u. u \<noteq> []) (map DownloadURL es)"
    by auto
  show ?thesis
  proof (cases r1)
    case (Inl e)
    with None dsc assms have "w' = w1"
      by (simp add: Start_def)
    with w1 evs es gets show ?thesis
      by auto
  next
    case (Inr workDir)
    obtain r2 w2 where body: "Start_body env w1 workDir = (r2, w2)"
      by (cases "Start_body env w1 workDir")
    from Start_body_trace [OF body] obtain evs2
      where w2: "trace w2 = trace w1 @ evs2" "http_gets evs2 = []" "listings evs2 = []"
      by blast
    from None dsc Inr body assms have "w' = os_RemoveAll w2 workDir"
      by (simp add: Start_def)
    with w1 w2 evs es gets show ?thesis
      by (auto simp: os_RemoveAll_def)
  qed
qed

text \<open>
  The theorem at a listing of a subdirectory and the descriptor: the descriptor
  alone is fetched.
\<close>

theorem only_listed_download_urls_are_fetched_witness:
  "http_gets (added (trace ex_world)
      (trace (snd (Start (ex_env [\<lparr>Name = ''sub'', DownloadURL = []\<rparr>, ex_descriptor] None) ex_world ex_start))))
     = [''https://raw/deploy.yaml'']
   \<and> listings (added (trace ex_world)
      (trace (snd (Start (ex_env [\<lparr>Name = ''sub'', DownloadURL = []\<rparr>, ex_descriptor] None) ex_world ex_start))))
     = [(''docker/blog'', ''main'')]
   \<and> (\<exists>es. (es = [] \<or> contents (ex_env [\<lparr>Name = ''sub'', DownloadURL = []\<rparr>, ex_descriptor] None)
                         (path_Join ''docker'' (Service ex_start)) (StartRef ex_start) = Inr es)
           \<and> http_gets (added (trace ex_world)
                (trace (snd (Start (ex_env [\<lparr>Name = ''sub'', DownloadURL = []\<rparr>, ex_descriptor] None) ex_world ex_start))))
               = filter (\<lambda>u. u \<noteq> []) (map DownloadURL es))"
proof -
  have gets: "http_gets (added (trace ex_world)
      (trace (snd (Start (ex_env [\<lparr>Name = ''sub'', DownloadURL = []\<rparr>, ex_descriptor] None) ex_world ex_start))))
     = [''https://raw/deploy.yaml'']"
    by code_simp
  have lists: "listings (added (trace ex_world)
      (trace (snd (Start (ex_env [\<lparr>Name = ''sub'', DownloadURL = []\<rparr>, ex_descriptor] None) ex_world ex_start))))
     = [(''docker/blog'', ''main'')]"
    by code_simp
  have run: "Start (ex_env [\<lparr>Name = ''sub'', DownloadURL = []\<rparr>, ex_descriptor] None) ex_world ex_start
      = (fst (Start (ex_env [\<lparr>Name = ''sub'', DownloadURL = []\<rparr>, ex_descriptor] None) ex_world ex_start),
         snd (Start (ex_env [\<lparr>Name = ''sub'', DownloadURL = []\<rparr>, ex_descriptor] None) ex_world ex_start))"
    by simp
  from only_listed_download_urls_are_fetched [OF run] gets lists show ?thesis
    by blast
qed

end
